theory Spec2Isabelle
  imports Main
begin

section \<open>Data model\<close>

text \<open>
  The program is \<^verbatim>\<open>src/alert_agent/agent.py\<close>: a watcher that polls a page for links to
  PDF documents, remembers the names it has seen in a JSON file, and sends every new
  document to an extraction service and the extracted record to a table.

  Python strings are modelled as \<^typ>\<open>string\<close> (byte strings). The string functions below
  (\<open>lower\<close>, \<open>strip\<close>, \<open>unquote\<close>) are Python's on ASCII text; letters and white space beyond
  ASCII, and the replacement of ill-formed UTF-8 by \<open>unquote\<close>, are outside the model.
  Output written by \<open>print\<close> is not modelled.
\<close>

text \<open>A value produced by \<open>json.load\<close>. The payload of a float is kept as its literal.\<close>

datatype json =
    JNull
  | JBool bool
  | JInt int
  | JFloat string
  | JStr string
  | JArr "json list"
  | JObj "(string \<times> json) list"

text \<open>
  A Python \<open>dict\<close> keeps its keys in insertion order: an association list with distinct
  keys. Assigning to a key that is present replaces the value in place; assigning to a new
  key appends the entry.
\<close>

type_synonym ('k, 'v) pydict = "('k \<times> 'v) list"

fun dict_set :: "('k, 'v) pydict \<Rightarrow> 'k \<Rightarrow> 'v \<Rightarrow> ('k, 'v) pydict" where
  "dict_set [] k v = [(k, v)]"
| "dict_set ((k', v') # d) k v =
     (if k' = k then (k, v) # d else (k', v') # dict_set d k v)"

definition dict_keys :: "('k, 'v) pydict \<Rightarrow> 'k list" where
  "dict_keys d = map fst d"

text \<open>The structured record of one document: field name to value.\<close>

type_synonym srecord = "(string, json) pydict"

text \<open>The exceptions the model distinguishes.\<close>

datatype py_exn = OSError | RequestException | TypeError | ValueError | OtherException

section \<open>String functions of the standard library\<close>

definition lower_char :: "char \<Rightarrow> char" where
  "lower_char c =
     (case map_of (zip ''ABCDEFGHIJKLMNOPQRSTUVWXYZ'' ''abcdefghijklmnopqrstuvwxyz'') c of
        Some d \<Rightarrow> d
      | None \<Rightarrow> c)"

definition lower :: "string \<Rightarrow> string" where
  "lower s = map lower_char s"

definition is_space :: "char \<Rightarrow> bool" where
  "is_space c \<longleftrightarrow> (of_char c :: nat) \<in> {9, 10, 11, 12, 13, 28, 29, 30, 31, 32}"

definition strip :: "string \<Rightarrow> string" where
  "strip s = rev (dropWhile is_space (rev (dropWhile is_space s)))"

definition endswith :: "string \<Rightarrow> string \<Rightarrow> bool" where
  "endswith s suf \<longleftrightarrow> length suf \<le> length s \<and> drop (length s - length suf) s = suf"

text \<open>\<open>os.path.basename\<close> (POSIX): what follows the last slash.\<close>

definition os_path_basename :: "string \<Rightarrow> string" where
  "os_path_basename p = rev (takeWhile (\<lambda>c. c \<noteq> CHR ''/'') (rev p))"

definition hex_val :: "char \<Rightarrow> nat option" where
  "hex_val c =
     map_of (zip ''0123456789abcdef'' [0 ..< 16] @ zip ''ABCDEF'' [10 ..< 16]) c"

text \<open>
  \<open>urllib.parse.unquote\<close>: every \<open>%XX\<close> with two hexadecimal digits becomes the byte
  \<open>XX\<close>; a percent sign not followed by two hexadecimal digits stays.
\<close>

fun unquote :: "string \<Rightarrow> string" where
  "unquote (c # h1 # h2 # rest) =
     (if c = CHR ''%'' then
        (case (hex_val h1, hex_val h2) of
           (Some a, Some b) \<Rightarrow> char_of (16 * a + b) # unquote rest
         | _ \<Rightarrow> c # unquote (h1 # h2 # rest))
      else c # unquote (h1 # h2 # rest))"
| "unquote s = s"

section \<open>Agent 1: the watcher\<close>

text \<open>
  The functions of \<open>urllib.parse\<close> that resolve an address and take its path, and the two
  functions of \<open>json\<close>, are parameters of the model.
\<close>

record libs =
  urljoin :: "string \<Rightarrow> string \<Rightarrow> string"
  urlpath :: "string \<Rightarrow> string"
  json_load :: "string \<Rightarrow> json option"
  json_dump :: "json list \<Rightarrow> string"

text \<open>
  Lines 81 to 92 of \<open>extract_pdf_names_and_urls\<close>: the name under which a resolved
  address is recorded, or \<open>None\<close> where the loop body records nothing.
\<close>

definition name_of_basename :: "string \<Rightarrow> string option" where
  "name_of_basename basename =
     (if basename = [] then None
      else
        let decoded_basename = unquote basename in
        if endswith (lower decoded_basename) ''.pdf'' then
          (let name = lower (take (length decoded_basename - 4) decoded_basename) in
           if name \<noteq> [] then Some name else None)
        else None)"

definition name_of_url :: "libs \<Rightarrow> string \<Rightarrow> string option" where
  "name_of_url L full_url = name_of_basename (os_path_basename (urlpath L full_url))"

text \<open>
  The page is given as the \<open>href\<close> values of the anchors under \<open>#skipmaincontent\<close>, in
  document order; the selector keeps those that end in \<open>.pdf\<close> or \<open>.PDF\<close>.
\<close>

definition select_anchors :: "string list \<Rightarrow> string list" where
  "select_anchors hrefs = filter (\<lambda>h. endswith h ''.pdf'' \<or> endswith h ''.PDF'') hrefs"

fun extract_loop :: "libs \<Rightarrow> string \<Rightarrow> string list \<Rightarrow> (string, string) pydict \<Rightarrow> (string, string) pydict" where
  "extract_loop L base_url [] names_to_urls = names_to_urls"
| "extract_loop L base_url (a # anchors) names_to_urls =
     (let href = strip a in
      if href = [] then extract_loop L base_url anchors names_to_urls
      else
        let full_url = urljoin L base_url href in
        (case name_of_url L full_url of
           None \<Rightarrow> extract_loop L base_url anchors names_to_urls
         | Some name \<Rightarrow> extract_loop L base_url anchors (dict_set names_to_urls name full_url)))"

definition extract_pdf_names_and_urls :: "libs \<Rightarrow> string list \<Rightarrow> string \<Rightarrow> (string, string) pydict" where
  "extract_pdf_names_and_urls L html base_url =
     extract_loop L base_url (select_anchors html) []"

section \<open>The known-alerts file\<close>

text \<open>
  A location in the file system is a directory and a final component, as
  \<open>os.path.abspath\<close> resolves a path. A file has content and may be unreadable.
\<close>

type_synonym path = "string \<times> string"

record fnode =
  readable :: bool
  content :: string

type_synonym filesystem = "path \<Rightarrow> fnode option"

text \<open>Python's \<open>list(data)\<close> on a decoded JSON value that is not a list.\<close>

fun py_list :: "json \<Rightarrow> py_exn + json list" where
  "py_list (JArr xs) = Inr xs"
| "py_list (JObj kvs) = Inr (map (\<lambda>kv. JStr (fst kv)) kvs)"
| "py_list (JStr s) = Inr (map (\<lambda>c. JStr [c]) s)"
| "py_list _ = Inl TypeError"

definition load_known :: "libs \<Rightarrow> filesystem \<Rightarrow> path \<Rightarrow> py_exn + json list" where
  "load_known L fs json_path =
     (case fs json_path of
        None \<Rightarrow> Inr []
      | Some f \<Rightarrow>
          if \<not> readable f then Inl OSError
          else
            (case json_load L (content f) of
               None \<Rightarrow> Inr []
             | Some data \<Rightarrow>
                 (case data of
                    JArr xs \<Rightarrow> Inr xs
                  | _ \<Rightarrow> (case py_list data of Inl e \<Rightarrow> Inr [] | Inr xs \<Rightarrow> Inr xs))))"

text \<open>
  How \<open>copy2\<close> ends when \<open>shutil.move\<close> falls back on it: the copy completes; the
  target cannot be opened for writing and nothing has changed; or the target was opened for
  writing, which empties it, and the copy raises after so many bytes.
\<close>

datatype copy_result = CopyDone | CopyRefused | CopyBroken nat

text \<open>
  What the operating system does during one call of \<open>save_known_atomic\<close>: the names
  \<open>tempfile.mkstemp\<close> tries after the prefix, whether writing the temporary file fails
  (and after how many bytes), whether \<open>os.rename\<close> succeeds, how the copy of the
  fallback ends, whether \<open>os.unlink\<close> of the fallback succeeds, whether \<open>os.remove\<close>
  of the \<open>finally\<close> block succeeds.
\<close>

record save_env =
  tmp_suffixes :: "string list"
  write_fail :: "nat option"
  rename_ok :: bool
  copy_res :: copy_result
  unlink_ok :: bool
  remove_ok :: bool

text \<open>
  \<open>mkstemp\<close> creates an empty file under the first candidate name that does not exist
  in the directory, and raises when it finds none.
\<close>

definition mkstemp :: "filesystem \<Rightarrow> string \<Rightarrow> string \<Rightarrow> string list \<Rightarrow> py_exn + (path \<times> filesystem)" where
  "mkstemp fs prefix dirn suffixes =
     (case find (\<lambda>s. fs (dirn, prefix @ s) = None) suffixes of
        None \<Rightarrow> Inl OSError
      | Some s \<Rightarrow>
          Inr ((dirn, prefix @ s),
               fs((dirn, prefix @ s) \<mapsto> \<lparr>readable = True, content = []\<rparr>)))"

text \<open>
  The steps of a save that touch the file system. The trace of a save lists, for each
  step taken, whether it succeeded and the file system after it: the states in which a
  kill of the process can leave the disk.
\<close>

datatype save_step = Mkstemp | Write | Rename | Truncate | Copy | Unlink | Remove

type_synonym save_trace = "(save_step \<times> bool \<times> filesystem) list"

text \<open>
  \<open>shutil.move\<close> of a file onto a path that is not a directory. It tries \<open>os.rename\<close>,
  which replaces the target in one step. When \<open>os.rename\<close> raises \<open>OSError\<close>, the
  library catches it and falls back on \<open>copy2\<close> followed by \<open>os.unlink\<close> of the
  source: \<open>copy2\<close> opens the target for writing, which empties a target that exists,
  writes the content of the source into it, and gives it the mode of the source. What the
  fallback raises leaves \<open>shutil.move\<close>.
\<close>

definition shutil_move ::
  "save_env \<Rightarrow> path \<Rightarrow> path \<Rightarrow> filesystem \<Rightarrow> py_exn option \<times> filesystem \<times> save_trace" where
  "shutil_move env src dst fs =
     (case fs src of
        None \<Rightarrow> (Some OSError, fs, [(Rename, False, fs)])
      | Some f \<Rightarrow>
          if rename_ok env then
            (None, (fs(src := None))(dst \<mapsto> f),
             [(Rename, True, (fs(src := None))(dst \<mapsto> f))])
          else
            let opened = fs(dst \<mapsto>
                  \<lparr>readable = (case fs dst of None \<Rightarrow> True | Some g \<Rightarrow> readable g),
                   content = []\<rparr>)
            in
            (case copy_res env of
               CopyRefused \<Rightarrow>
                 (Some OSError, fs, [(Rename, False, fs), (Truncate, False, fs)])
             | CopyBroken k \<Rightarrow>
                 let broken = fs(dst \<mapsto>
                       \<lparr>readable = (case fs dst of None \<Rightarrow> True | Some g \<Rightarrow> readable g),
                        content = take k (content f)\<rparr>)
                 in (Some OSError, broken,
                     [(Rename, False, fs), (Truncate, True, opened), (Copy, False, broken)])
             | CopyDone \<Rightarrow>
                 if unlink_ok env then
                   (None, (fs(dst \<mapsto> f))(src := None),
                    [(Rename, False, fs), (Truncate, True, opened), (Copy, True, fs(dst \<mapsto> f)),
                     (Unlink, True, (fs(dst \<mapsto> f))(src := None))])
                 else
                   (Some OSError, fs(dst \<mapsto> f),
                    [(Rename, False, fs), (Truncate, True, opened), (Copy, True, fs(dst \<mapsto> f)),
                     (Unlink, False, fs(dst \<mapsto> f))])))"

text \<open>The \<open>finally\<close> block: remove the temporary file if it exists, ignoring a failure.\<close>

definition finally_cleanup :: "save_env \<Rightarrow> path \<Rightarrow> filesystem \<Rightarrow> filesystem \<times> save_trace" where
  "finally_cleanup env tmp fs =
     (if fs tmp \<noteq> None then
        (if remove_ok env then (fs(tmp := None), [(Remove, True, fs(tmp := None))])
         else (fs, [(Remove, False, fs)]))
      else (fs, []))"

text \<open>
  \<open>save_known_atomic\<close>. The result is the exception that leaves the function, if any,
  the file system left, and the trace.
\<close>

definition save_known_atomic ::
  "libs \<Rightarrow> save_env \<Rightarrow> json list \<Rightarrow> path \<Rightarrow> filesystem \<Rightarrow> py_exn option \<times> filesystem \<times> save_trace" where
  "save_known_atomic L env list_data json_path fs =
     (let dirn = fst json_path in
      case mkstemp fs (''.'' @ snd json_path @ ''.'') dirn (tmp_suffixes env) of
        Inl e \<Rightarrow> (Some e, fs, [(Mkstemp, False, fs)])
      | Inr (tmp, fs1) \<Rightarrow>
          let text = json_dump L list_data in
          (case write_fail env of
             Some k \<Rightarrow>
               let fs2 = fs1(tmp \<mapsto> \<lparr>readable = True, content = take k text\<rparr>);
                   (fs3, tr) = finally_cleanup env tmp fs2
               in (Some OSError, fs3, (Mkstemp, True, fs1) # (Write, False, fs2) # tr)
           | None \<Rightarrow>
               let fs2 = fs1(tmp \<mapsto> \<lparr>readable = True, content = text\<rparr>);
                   (r, fs3, mtr) = shutil_move env tmp json_path fs2;
                   (fs4, tr) = finally_cleanup env tmp fs3
               in (r, fs4, (Mkstemp, True, fs1) # (Write, True, fs2) # mtr @ tr)))"

section \<open>Agent 2: the extractor\<close>

text \<open>One answer of the model API: the call raises, or the response has a parsed value.\<close>

datatype api_result = ApiRaises | ApiParsed "srecord option"

text \<open>Truth value of \<open>response.parsed\<close> and of \<open>extracted_data\<close>: not \<open>None\<close>, not empty.\<close>

fun truthy :: "srecord option \<Rightarrow> bool" where
  "truthy None = False"
| "truthy (Some r) = (r \<noteq> [])"

text \<open>
  The \<open>while True\<close> loop of \<open>get_gemini_output\<close>. \<open>resp n\<close> is the answer to attempt
  \<open>n\<close>; \<open>slept\<close> counts the seconds spent in \<open>sleep(5)\<close>. The loop returns the parsed
  value, the number of the last attempt and the seconds slept; \<open>None\<close> is a loop that
  never ends.
\<close>

partial_function (option) retry_loop ::
  "(nat \<Rightarrow> api_result) \<Rightarrow> nat \<Rightarrow> nat \<Rightarrow> (srecord option \<times> nat \<times> nat) option" where
  "retry_loop resp trial slept =
     (case resp (trial + 1) of
        ApiRaises \<Rightarrow> retry_loop resp (trial + 1) (slept + 5)
      | ApiParsed p \<Rightarrow>
          (if truthy p then Some (p, trial + 1, slept)
           else retry_loop resp (trial + 1) (slept + 5)))"

text \<open>How a call ends: it returns, it raises, or it never returns.\<close>

datatype 'a outcome = Returns 'a | Raises py_exn | Diverges

text \<open>
  \<open>genai_client\<close> is the module's global client (\<open>None\<close> when its construction failed);
  \<open>download\<close> is the answer of \<open>requests.get\<close> for an address; \<open>api\<close> gives, for the
  bytes of a document, the answers of the model to the successive attempts.
\<close>

definition get_gemini_output ::
  "'g option \<Rightarrow> (string \<Rightarrow> py_exn + string) \<Rightarrow> (string \<Rightarrow> nat \<Rightarrow> api_result) \<Rightarrow> string
     \<Rightarrow> srecord option outcome" where
  "get_gemini_output genai_client download api pdf_url =
     (if genai_client = None then Returns None
      else
        (case download pdf_url of
           Inl e \<Rightarrow> (if e = RequestException then Returns None else Raises e)
         | Inr pdf_bytes \<Rightarrow>
             (case retry_loop (api pdf_bytes) 0 0 of
                None \<Rightarrow> Diverges
              | Some (parsed, trial, slept) \<Rightarrow> Returns parsed)))"

section \<open>Agent 3: the uploader\<close>

text \<open>
  What the loop does that its collaborators can observe, in order: a page fetch, a save
  of the known list, a call of the extractor for an address, a call of \<open>add_incident\<close>
  with a record, the insert sent to the table, a sleep.
\<close>

datatype event =
    EvFetch string
  | EvSave "json list"
  | EvExtract string
  | EvIngest srecord
  | EvInsert srecord
  | EvSleep int

text \<open>
  \<open>add_incident\<close> returns at once without a client; otherwise it sends one insert, and
  catches whatever the insert raises. It always returns.
\<close>

definition add_incident :: "'s option \<Rightarrow> srecord \<Rightarrow> event list" where
  "add_incident supabase incident_data =
     (if supabase = None then [] else [EvInsert incident_data])"

section \<open>The main loop\<close>

text \<open>What the outside world answers during one poll cycle.\<close>

record cycle_env =
  fetch_res :: "string \<Rightarrow> py_exn + string list"
  save_io :: save_env
  download :: "string \<Rightarrow> py_exn + string"
  api :: "string \<Rightarrow> nat \<Rightarrow> api_result"

text \<open>
  Lines 338 to 344: the names found on the page that are not in the known list, as the
  dictionary \<open>new_alerts\<close> and the list \<open>new_basenames\<close>. A name is known when the list
  holds a string equal to it.
\<close>

fun new_alerts_loop ::
  "(string, string) pydict \<Rightarrow> json list \<Rightarrow> (string, string) pydict \<Rightarrow> string list
     \<Rightarrow> (string, string) pydict \<times> string list" where
  "new_alerts_loop [] known new_alerts new_basenames = (new_alerts, new_basenames)"
| "new_alerts_loop ((basename, full_url) # found_urls) known new_alerts new_basenames =
     (if JStr basename \<notin> set known
      then new_alerts_loop found_urls known
             (dict_set new_alerts basename full_url) (new_basenames @ [basename])
      else new_alerts_loop found_urls known new_alerts new_basenames)"

definition compute_new ::
  "(string, string) pydict \<Rightarrow> json list \<Rightarrow> (string, string) pydict \<times> string list" where
  "compute_new found_urls known = new_alerts_loop found_urls known [] []"

text \<open>
  Lines 359 to 376: the new alerts one after the other. An exception of the extractor is
  caught and the loop goes on; an extractor that never returns blocks the loop, which is
  the result \<open>False\<close>.
\<close>

fun process_items ::
  "'s option \<Rightarrow> 'g option \<Rightarrow> cycle_env \<Rightarrow> (string, string) pydict \<Rightarrow> event list \<times> bool" where
  "process_items supabase_client genai_client env [] = ([], True)"
| "process_items supabase_client genai_client env ((basename, full_url) # new_alerts) =
     (case get_gemini_output genai_client (download env) (api env) full_url of
        Diverges \<Rightarrow> ([EvExtract full_url], False)
      | Raises e \<Rightarrow>
          (let (evs, fin) = process_items supabase_client genai_client env new_alerts
           in (EvExtract full_url # evs, fin))
      | Returns extracted_data \<Rightarrow>
          (let (evs, fin) = process_items supabase_client genai_client env new_alerts in
           if truthy extracted_data
           then (EvExtract full_url # EvIngest (the extracted_data)
                   # add_incident supabase_client (the extracted_data) @ evs, fin)
           else (EvExtract full_url # evs, fin)))"

text \<open>How one pass through the body of \<open>while True\<close> ends, before \<open>once\<close> is looked at.\<close>

datatype cycle_outcome = CycleDone | FetchFailed | SaveRaised py_exn | Blocked

text \<open>One pass: the outcome, the events, the known list in memory and the file system.\<close>

definition cycle ::
  "libs \<Rightarrow> 'g option \<Rightarrow> string \<Rightarrow> path \<Rightarrow> 's option \<Rightarrow> cycle_env \<Rightarrow> json list \<Rightarrow> filesystem
     \<Rightarrow> cycle_outcome \<times> event list \<times> json list \<times> filesystem" where
  "cycle L genai_client target_url json_path supabase_client env known fs =
     (case fetch_res env target_url of
        Inl e \<Rightarrow> (FetchFailed, [EvFetch target_url], known, fs)
      | Inr html \<Rightarrow>
          let found_urls = extract_pdf_names_and_urls L html target_url;
              (new_alerts, new_basenames) = compute_new found_urls known
          in
          if new_alerts \<noteq> [] then
            (let known' = known @ map JStr new_basenames;
                 (r, fs', tr) = save_known_atomic L (save_io env) known' json_path fs
             in case r of
                  Some e \<Rightarrow> (SaveRaised e, [EvFetch target_url, EvSave known'], known', fs')
                | None \<Rightarrow>
                    (let (evs, fin) = process_items supabase_client genai_client env new_alerts
                     in (if fin then CycleDone else Blocked,
                         EvFetch target_url # EvSave known' # evs, known', fs')))
          else (CycleDone, [EvFetch target_url], known, fs))"

text \<open>
  How a run of the loop ends: it leaves the loop (\<open>once\<close>), an exception leaves
  \<open>main_loop\<close>, an extractor call never returns, or the loop is still running when the
  recorded answers of the world are used up.
\<close>

datatype run_outcome = Exited | Raised py_exn | BlockedForever | StillRunning

fun loop ::
  "libs \<Rightarrow> 'g option \<Rightarrow> string \<Rightarrow> path \<Rightarrow> int \<Rightarrow> bool \<Rightarrow> 's option \<Rightarrow> cycle_env list
     \<Rightarrow> json list \<Rightarrow> filesystem \<Rightarrow> run_outcome \<times> event list \<times> json list \<times> filesystem" where
  "loop L genai_client target_url json_path interval once supabase_client [] known fs =
     (StillRunning, [], known, fs)"
| "loop L genai_client target_url json_path interval once supabase_client (env # envs) known fs =
     (case cycle L genai_client target_url json_path supabase_client env known fs of
        (SaveRaised e, tr, known', fs') \<Rightarrow> (Raised e, tr, known', fs')
      | (Blocked, tr, known', fs') \<Rightarrow> (BlockedForever, tr, known', fs')
      | (_, tr, known', fs') \<Rightarrow>
          if once then (Exited, tr, known', fs')
          else if interval < 0 then (Raised ValueError, tr, known', fs')
          else
            (let (out, tr', known'', fs'') =
                   loop L genai_client target_url json_path interval once supabase_client
                     envs known' fs'
             in (out, tr @ EvSleep interval # tr', known'', fs'')))"

text \<open>
  \<open>main_loop\<close>. The parameter \<open>genai_client_obj\<close> is the client passed by the caller;
  \<open>genai_client\<close> is the global of the module, which \<open>get_gemini_output\<close> reads.
\<close>

definition main_loop ::
  "libs \<Rightarrow> 'g option \<Rightarrow> string \<Rightarrow> path \<Rightarrow> int \<Rightarrow> string option \<Rightarrow> bool \<Rightarrow> 's option \<Rightarrow> 'c
     \<Rightarrow> cycle_env list \<Rightarrow> filesystem \<Rightarrow> run_outcome \<times> event list \<times> json list \<times> filesystem" where
  "main_loop L genai_client url json_path interval dev_url once supabase_client
       genai_client_obj envs fs =
     (let target_url = (case dev_url of None \<Rightarrow> url | Some d \<Rightarrow> if d \<noteq> [] then d else url) in
      case load_known L fs json_path of
        Inl e \<Rightarrow> (Raised e, [], [], fs)
      | Inr known \<Rightarrow>
          loop L genai_client target_url json_path interval once supabase_client envs known fs)"

section \<open>Notions used in the statements\<close>

text \<open>The file a completed save leaves at the target.\<close>

definition new_file :: "libs \<Rightarrow> json list \<Rightarrow> fnode" where
  "new_file L list_data = \<lparr>readable = True, content = json_dump L list_data\<rparr>"

text \<open>What a path holds in the successive states of a trace.\<close>

definition target_history :: "path \<Rightarrow> save_trace \<Rightarrow> (save_step \<times> bool \<times> fnode option) list" where
  "target_history p tr = map (\<lambda>(step, ok, s). (step, ok, s p)) tr"

text \<open>An attempt succeeds when the call returns a response whose parsed value is true.\<close>

fun succeeded :: "api_result \<Rightarrow> bool" where
  "succeeded ApiRaises = False"
| "succeeded (ApiParsed p) = truthy p"

text \<open>The events of a cycle that belong to the processing of an item.\<close>

fun is_item_event :: "event \<Rightarrow> bool" where
  "is_item_event (EvExtract u) = True"
| "is_item_event (EvIngest r) = True"
| "is_item_event (EvInsert r) = True"
| "is_item_event _ = False"

section \<open>Sample library functions and a sample world\<close>

text \<open>
  Stand-ins for the library functions, to run the model on concrete inputs: \<open>urljoin\<close>
  on an absolute \<open>href\<close>, the path of an \<open>https\<close> address without query or fragment,
  \<open>json.load\<close> on five texts, and \<open>json.dumps\<close> without indentation on a list of
  strings that need no escape (any other element is written as \<open>null\<close>).
\<close>

fun sample_dump_item :: "json \<Rightarrow> string" where
  "sample_dump_item (JStr s) = CHR 0x22 # s @ [CHR 0x22]"
| "sample_dump_item _ = ''null''"

fun sample_dump_items :: "json list \<Rightarrow> string" where
  "sample_dump_items [] = []"
| "sample_dump_items [x] = sample_dump_item x"
| "sample_dump_items (x # y # xs) = sample_dump_item x @ '', '' @ sample_dump_items (y # xs)"

definition sample_libs :: libs where
  \<open>sample_libs =
     \<lparr>urljoin = (\<lambda>base href. href),
      urlpath = (\<lambda>u. dropWhile (\<lambda>c. c \<noteq> CHR ''/'') (drop 8 u)),
      json_load = (\<lambda>s. if s = ''{"a": 1}'' then Some (JObj [(''a'', JInt 1)])
                        else if s = ''"ab"'' then Some (JStr ''ab'')
                        else if s = ''7'' then Some (JInt 7)
                        else if s = ''["alpha"]'' then Some (JArr [JStr ''alpha''])
                        else if s = ''["alpha", "beta", "gamma"]''
                          then Some (JArr [JStr ''alpha'', JStr ''beta'', JStr ''gamma''])
                        else None),
      json_dump = (\<lambda>xs. ''['' @ sample_dump_items xs @ '']'')\<rparr>\<close>

text \<open>
  A page with two documents, a known-alerts file that holds \<open>alpha\<close>, and a world in
  which the page is fetched, every download succeeds, the model answers as \<open>answers\<close>
  says, and the rename of the temporary file succeeds or is refused together with the copy
  of the fallback.
\<close>

definition sample_page :: "string list" where
  "sample_page = [''https://x/docs/beta.pdf'', ''https://x/docs/gamma.pdf'']"

definition sample_path :: path where
  "sample_path = (''/srv'', ''known.json'')"

definition sample_fs :: filesystem where
  \<open>sample_fs = [sample_path \<mapsto> \<lparr>readable = True, content = ''["alpha"]''\<rparr>]\<close>

definition sample_env :: "(string \<Rightarrow> nat \<Rightarrow> api_result) \<Rightarrow> bool \<Rightarrow> cycle_env" where
  "sample_env answers mv =
     \<lparr>fetch_res = (\<lambda>u. Inr sample_page),
      save_io = \<lparr>tmp_suffixes = [''a1''], write_fail = None, rename_ok = mv,
                copy_res = CopyRefused, unlink_ok = True, remove_ok = True\<rparr>,
      download = (\<lambda>u. Inr ''%PDF''),
      api = answers\<rparr>"

section \<open>Dictionaries and the change detector\<close>

lemma dict_set_fresh: "k \<notin> set (map fst d) \<Longrightarrow> dict_set d k v = d @ [(k, v)]"
  by (induction d) auto

lemma dict_set_keys: "set (map fst (dict_set d k v)) = insert k (set (map fst d))"
proof (induction d)
  case Nil
  then show ?case by simp
next
  case (Cons a d)
  obtain k' v' where a: "a = (k', v')" by (cases a)
  show ?case
  proof (cases "k' = k")
    case True
    with a show ?thesis by simp
  next
    case False
    with a Cons.IH show ?thesis by (simp add: insert_commute)
  qed
qed

lemma dict_set_distinct: "distinct (map fst d) \<Longrightarrow> distinct (map fst (dict_set d k v))"
proof (induction d)
  case Nil
  then show ?case by simp
next
  case (Cons a d)
  obtain k' v' where a: "a = (k', v')" by (cases a)
  show ?case
  proof (cases "k' = k")
    case True
    with Cons.prems a show ?thesis by simp
  next
    case False
    have "k' \<notin> set (map fst (dict_set d k v))"
      using Cons.prems a False by (simp only: dict_set_keys) simp
    with Cons a False show ?thesis by simp
  qed
qed

lemma extract_loop_distinct:
  "distinct (map fst acc) \<Longrightarrow> distinct (map fst (extract_loop L base anchors acc))"
  by (induction anchors arbitrary: acc) (auto simp: Let_def dict_set_distinct split: option.splits)

lemma extract_distinct: "distinct (dict_keys (extract_pdf_names_and_urls L html base))"
  by (simp add: extract_pdf_names_and_urls_def dict_keys_def extract_loop_distinct)

lemma new_alerts_loop_eq:
  "distinct (map fst found) \<Longrightarrow> set (map fst found) \<inter> set (map fst na) = {} \<Longrightarrow>
   new_alerts_loop found known na nb =
     (na @ filter (\<lambda>kv. JStr (fst kv) \<notin> set known) found,
      nb @ map fst (filter (\<lambda>kv. JStr (fst kv) \<notin> set known) found))"
proof (induction found arbitrary: na nb)
  case Nil
  then show ?case by simp
next
  case (Cons a found)
  obtain b u where a: "a = (b, u)" by (cases a)
  have fresh: "b \<notin> set (map fst na)" using Cons.prems(2) a by auto
  have d: "distinct (map fst found)" using Cons.prems(1) by simp
  have b_new: "b \<notin> set (map fst found)" using Cons.prems(1) a by simp
  show ?case
  proof (cases "JStr b \<in> set known")
    case True
    have "set (map fst found) \<inter> set (map fst na) = {}" using Cons.prems(2) by auto
    with Cons.IH[OF d this] True a show ?thesis by simp
  next
    case False
    have disj: "set (map fst found) \<inter> set (map fst (dict_set na b u)) = {}"
      using Cons.prems(2) b_new by (simp only: dict_set_keys) auto
    show ?thesis
      using Cons.IH[OF d disj] False a by (simp add: dict_set_fresh[OF fresh])
  qed
qed

lemma compute_new_eq:
  "distinct (map fst found) \<Longrightarrow>
   compute_new found known =
     (filter (\<lambda>kv. JStr (fst kv) \<notin> set known) found,
      map fst (filter (\<lambda>kv. JStr (fst kv) \<notin> set known) found))"
  by (simp add: compute_new_def new_alerts_loop_eq)

text \<open>
  Claim C2. For every dictionary of found addresses (its keys are distinct, as in any
  Python dictionary) and every known list, the new alerts are exactly the entries of the
  dictionary whose key is not in the known list, in the order of the dictionary, and
  \<open>new_basenames\<close> are their keys in that order. A key is in the known list when some
  element of the list equals the string. The result depends on the two arguments only.
\<close>

theorem change_detector_correct:
  assumes "distinct (dict_keys found_urls)"
  shows "compute_new found_urls known =
           (filter (\<lambda>kv. \<forall>x \<in> set known. x \<noteq> JStr (fst kv)) found_urls,
            dict_keys (filter (\<lambda>kv. \<forall>x \<in> set known. x \<noteq> JStr (fst kv)) found_urls))"
proof -
  have eq: "(\<lambda>kv. \<forall>x \<in> set known. x \<noteq> JStr (fst kv)) = (\<lambda>kv::string \<times> string. JStr (fst kv) \<notin> set known)"
    by (rule ext) blast
  have "distinct (map fst found_urls)"
    using assms by (simp add: dict_keys_def)
  then show ?thesis
    unfolding eq dict_keys_def by (rule compute_new_eq)
qed

theorem change_detector_correct_witness:
  "distinct (dict_keys [(''alpha'', ''https://x/alpha.pdf''), (''beta'', ''https://x/beta.pdf'')]) \<and>
   compute_new [(''alpha'', ''https://x/alpha.pdf''), (''beta'', ''https://x/beta.pdf'')] [JStr ''alpha'']
     = ([(''beta'', ''https://x/beta.pdf'')], [''beta''])"
  using change_detector_correct
    [of "[(''alpha'', ''https://x/alpha.pdf''), (''beta'', ''https://x/beta.pdf'')]" "[JStr ''alpha'']"]
  by (simp add: dict_keys_def)

section \<open>Saving the known list\<close>

lemma mkstemp_Inr:
  assumes "mkstemp fs prefix dirn suffixes = Inr (tmp, fs1)"
  shows "\<exists>s. tmp = (dirn, prefix @ s)" and "fs tmp = None"
    and "fs1 = fs(tmp \<mapsto> \<lparr>readable = True, content = []\<rparr>)"
  using assms by (auto simp: mkstemp_def find_Some_iff split: option.splits)

lemma tmp_not_target: "(fst json_path, (''.'' @ snd json_path @ ''.'') @ s) \<noteq> json_path"
proof
  assume "(fst json_path, (''.'' @ snd json_path @ ''.'') @ s) = json_path"
  then have "snd json_path = (''.'' @ snd json_path @ ''.'') @ s"
    by (metis snd_conv)
  then have "length (snd json_path) = length ((''.'' @ snd json_path @ ''.'') @ s)"
    by (rule arg_cong)
  then show False by simp
qed

lemma shutil_move_None:
  assumes "shutil_move env src dst fs = (None, fs', tr)" and "fs src = Some f" and "src \<noteq> dst"
  shows "fs' = (fs(src := None))(dst \<mapsto> f)"
  using assms
  by (auto simp: shutil_move_def Let_def fun_upd_twist split: if_splits copy_result.splits)

lemma finally_cleanup_absent: "fs tmp = None \<Longrightarrow> finally_cleanup env tmp fs = (fs, [])"
  by (simp add: finally_cleanup_def)

lemma save_known_atomic_None:
  assumes run: "save_known_atomic L env list_data json_path fs = (None, fs', tr)"
  shows "fs' = fs(json_path \<mapsto> new_file L list_data)"
proof (cases "mkstemp fs (''.'' @ snd json_path @ ''.'') (fst json_path) (tmp_suffixes env)")
  case (Inl e)
  with run show ?thesis by (simp add: save_known_atomic_def)
next
  case (Inr pr)
  obtain tmp fs1 where pr: "pr = (tmp, fs1)" by (cases pr)
  from mkstemp_Inr[OF Inr[unfolded pr]]
  obtain s where tmp: "tmp = (fst json_path, (''.'' @ snd json_path @ ''.'') @ s)"
    and fresh: "fs tmp = None" and fs1: "fs1 = fs(tmp \<mapsto> \<lparr>readable = True, content = []\<rparr>)"
    by blast
  have ne: "tmp \<noteq> json_path" unfolding tmp by (rule tmp_not_target)
  have mk: "mkstemp fs (''.'' @ snd json_path @ ''.'') (fst json_path) (tmp_suffixes env)
              = Inr (tmp, fs(tmp \<mapsto> \<lparr>readable = True, content = []\<rparr>))"
    using Inr pr fs1 by simp
  let ?fs2 = "fs(tmp \<mapsto> new_file L list_data)"
  obtain r fs3 mtr where mv: "shutil_move env tmp json_path ?fs2 = (r, fs3, mtr)"
    by (metis prod_cases3)
  obtain fs4 ctr where fc: "finally_cleanup env tmp fs3 = (fs4, ctr)"
    by (cases "finally_cleanup env tmp fs3")
  have wf: "write_fail env = None"
    using run mk by (cases "write_fail env") (auto simp: save_known_atomic_def Let_def split: prod.splits)
  have "save_known_atomic L env list_data json_path fs
          = (r, fs4, (Mkstemp, True, fs(tmp \<mapsto> \<lparr>readable = True, content = []\<rparr>))
                       # (Write, True, ?fs2) # mtr @ ctr)"
    using mk wf mv fc by (simp add: save_known_atomic_def Let_def new_file_def)
  with run have r: "r = None" and f4: "fs4 = fs'" by simp_all
  have "fs3 = (?fs2(tmp := None))(json_path \<mapsto> new_file L list_data)"
    using shutil_move_None[OF mv[unfolded r] _ ne] by simp
  then have fs3: "fs3 = fs(json_path \<mapsto> new_file L list_data)"
    using fresh ne by (auto simp: fun_eq_iff)
  then have "fs3 tmp = None" using fresh ne by simp
  with finally_cleanup_absent[of fs3 tmp env] fc have "fs4 = fs3" by simp
  with fs3 f4 show ?thesis by simp
qed

text \<open>
  When \<open>os.rename\<close> succeeds the save is atomic: in every state the disk passes through
  the target holds its old file, except after the rename, where it holds the whole new
  content.
\<close>

lemma save_old_or_new_when_renamed:
  assumes run: "save_known_atomic L env list_data json_path fs = (r, fs', tr)"
    and ren: "rename_ok env"
  shows "\<forall>(step, ok, s) \<in> set tr.
           (if step = Rename then s json_path = Some (new_file L list_data)
            else s json_path = fs json_path)"
proof (cases "mkstemp fs (''.'' @ snd json_path @ ''.'') (fst json_path) (tmp_suffixes env)")
  case (Inl e)
  with run show ?thesis by (auto simp: save_known_atomic_def)
next
  case (Inr pr)
  obtain tmp fs1 where pr: "pr = (tmp, fs1)" by (cases pr)
  from mkstemp_Inr[OF Inr[unfolded pr]]
  obtain s where tmp: "tmp = (fst json_path, (''.'' @ snd json_path @ ''.'') @ s)"
    and fresh: "fs tmp = None" and fs1: "fs1 = fs(tmp \<mapsto> \<lparr>readable = True, content = []\<rparr>)"
    by blast
  have ne: "tmp \<noteq> json_path" unfolding tmp by (rule tmp_not_target)
  have mk: "mkstemp fs (''.'' @ snd json_path @ ''.'') (fst json_path) (tmp_suffixes env)
              = Inr (tmp, fs(tmp \<mapsto> \<lparr>readable = True, content = []\<rparr>))"
    using Inr pr fs1 by simp
  show ?thesis
  proof (cases "write_fail env")
    case (Some k)
    with run mk ne show ?thesis
      by (auto simp: save_known_atomic_def Let_def finally_cleanup_def split: if_splits)
  next
    case None
    with run mk ne ren show ?thesis
      by (auto simp: save_known_atomic_def Let_def finally_cleanup_def shutil_move_def
          new_file_def split: if_splits)
  qed
qed

text \<open>
  Claim C3. The claim, like the docstring of \<open>save_known_atomic\<close>, promises that the
  target is replaced atomically. The code calls \<open>shutil.move\<close>, which rewrites the target
  in place when \<open>os.rename\<close> is refused. With a known file that holds \<open>alpha\<close> and the
  list \<open>alpha\<close>, \<open>beta\<close> to save: when the rename is refused and the copy breaks after
  four bytes, the save raises and the known file holds those four bytes, neither the old
  content nor the new; and when the copy completes, the known file is empty in the state
  after the target was opened, so a kill of the process there loses the old content.
\<close>

theorem save_overwrites_in_place:
  \<open>fst (save_known_atomic sample_libs
          \<lparr>tmp_suffixes = [''a1''], write_fail = None, rename_ok = False,
             copy_res = CopyBroken 4, unlink_ok = True, remove_ok = True\<rparr>
          [JStr ''alpha'', JStr ''beta''] (''/srv'', ''known.json'')
          [(''/srv'', ''known.json'') \<mapsto> \<lparr>readable = True, content = ''["alpha"]''\<rparr>])
     = Some OSError
   \<and> fst (snd (save_known_atomic sample_libs
          \<lparr>tmp_suffixes = [''a1''], write_fail = None, rename_ok = False,
             copy_res = CopyBroken 4, unlink_ok = True, remove_ok = True\<rparr>
          [JStr ''alpha'', JStr ''beta''] (''/srv'', ''known.json'')
          [(''/srv'', ''known.json'') \<mapsto> \<lparr>readable = True, content = ''["alpha"]''\<rparr>]))
       (''/srv'', ''known.json'')
     = Some \<lparr>readable = True, content = ''["al''\<rparr>
   \<and> target_history (''/srv'', ''known.json'')
        (snd (snd (save_known_atomic sample_libs
          \<lparr>tmp_suffixes = [''a1''], write_fail = None, rename_ok = False,
             copy_res = CopyDone, unlink_ok = True, remove_ok = True\<rparr>
          [JStr ''alpha'', JStr ''beta''] (''/srv'', ''known.json'')
          [(''/srv'', ''known.json'') \<mapsto> \<lparr>readable = True, content = ''["alpha"]''\<rparr>])))
     = [(Mkstemp, True, Some \<lparr>readable = True, content = ''["alpha"]''\<rparr>),
        (Write, True, Some \<lparr>readable = True, content = ''["alpha"]''\<rparr>),
        (Rename, False, Some \<lparr>readable = True, content = ''["alpha"]''\<rparr>),
        (Truncate, True, Some \<lparr>readable = True, content = []\<rparr>),
        (Copy, True, Some \<lparr>readable = True, content = ''["alpha", "beta"]''\<rparr>),
        (Unlink, True, Some \<lparr>readable = True, content = ''["alpha", "beta"]''\<rparr>)]\<close>
  by (simp add: save_known_atomic_def mkstemp_def shutil_move_def finally_cleanup_def Let_def
      sample_libs_def target_history_def)

section \<open>Loading the known list\<close>

text \<open>
  A file whose top level is a JSON object is not read as empty: \<open>list(data)\<close> gives the
  keys of the object.
\<close>

theorem load_known_object_counterexample:
  \<open>load_known sample_libs
      [(''/srv'', ''known.json'') \<mapsto> \<lparr>readable = True, content = ''{"a": 1}''\<rparr>]
      (''/srv'', ''known.json'') = Inr [JStr ''a'']\<close>
  by (simp add: load_known_def sample_libs_def)

text \<open>
  Claim C4, amended. \<open>load_known\<close> returns the empty list when the file is missing. When
  the file exists and can be opened it does not raise, and it returns: the empty list
  when the content is not valid JSON; exactly the list when the top level is an array; the
  keys when the top level is an object; the characters when it is a string; the empty
  list when it is \<open>null\<close>, a boolean or a number.
\<close>

theorem load_known_lenient:
  "(fs json_path = None \<longrightarrow> load_known L fs json_path = Inr [])
   \<and> (\<forall>f. fs json_path = Some f \<and> readable f \<longrightarrow>
         (\<exists>xs. load_known L fs json_path = Inr xs)
         \<and> (json_load L (content f) = None \<longrightarrow> load_known L fs json_path = Inr [])
         \<and> (\<forall>xs. json_load L (content f) = Some (JArr xs) \<longrightarrow> load_known L fs json_path = Inr xs)
         \<and> (\<forall>kvs. json_load L (content f) = Some (JObj kvs) \<longrightarrow>
                load_known L fs json_path = Inr (map (\<lambda>kv. JStr (fst kv)) kvs))
         \<and> (\<forall>s. json_load L (content f) = Some (JStr s) \<longrightarrow>
                load_known L fs json_path = Inr (map (\<lambda>c. JStr [c]) s))
         \<and> (json_load L (content f) = Some JNull
              \<or> (\<exists>b. json_load L (content f) = Some (JBool b))
              \<or> (\<exists>i. json_load L (content f) = Some (JInt i))
              \<or> (\<exists>x. json_load L (content f) = Some (JFloat x))
              \<longrightarrow> load_known L fs json_path = Inr []))"
proof (intro conjI allI impI)
  assume "fs json_path = None"
  then show "load_known L fs json_path = Inr []" by (simp add: load_known_def)
next
  fix f assume a: "fs json_path = Some f \<and> readable f"
  show "\<exists>xs. load_known L fs json_path = Inr xs"
    using a by (auto simp: load_known_def split: option.splits json.splits sum.splits)
next
  fix f assume a: "fs json_path = Some f \<and> readable f" and "json_load L (content f) = None"
  then show "load_known L fs json_path = Inr []" by (simp add: load_known_def)
next
  fix f xs assume "fs json_path = Some f \<and> readable f" and "json_load L (content f) = Some (JArr xs)"
  then show "load_known L fs json_path = Inr xs" by (simp add: load_known_def)
next
  fix f kvs assume "fs json_path = Some f \<and> readable f" and "json_load L (content f) = Some (JObj kvs)"
  then show "load_known L fs json_path = Inr (map (\<lambda>kv. JStr (fst kv)) kvs)" by (simp add: load_known_def)
next
  fix f s assume "fs json_path = Some f \<and> readable f" and "json_load L (content f) = Some (JStr s)"
  then show "load_known L fs json_path = Inr (map (\<lambda>c. JStr [c]) s)" by (simp add: load_known_def)
next
  fix f assume "fs json_path = Some f \<and> readable f" and "json_load L (content f) = Some JNull
              \<or> (\<exists>b. json_load L (content f) = Some (JBool b))
              \<or> (\<exists>i. json_load L (content f) = Some (JInt i))
              \<or> (\<exists>x. json_load L (content f) = Some (JFloat x))"
  then show "load_known L fs json_path = Inr []" by (auto simp: load_known_def)
qed

theorem load_known_lenient_witness:
  \<open>[(''/srv'', ''known.json'') \<mapsto> \<lparr>readable = True, content = ''["alpha"]''\<rparr>] (''/srv'', ''known.json'')
      = Some \<lparr>readable = True, content = ''["alpha"]''\<rparr>
   \<and> readable \<lparr>readable = True, content = ''["alpha"]''\<rparr>
   \<and> json_load sample_libs (content \<lparr>readable = True, content = ''["alpha"]''\<rparr>) = Some (JArr [JStr ''alpha''])
   \<and> load_known sample_libs
        [(''/srv'', ''known.json'') \<mapsto> \<lparr>readable = True, content = ''["alpha"]''\<rparr>]
        (''/srv'', ''known.json'') = Inr [JStr ''alpha'']\<close>
proof -
  let ?f = \<open>\<lparr>readable = True, content = ''["alpha"]''\<rparr>\<close>
  let ?fs = "[(''/srv'', ''known.json'') \<mapsto> ?f]"
  have h: "?fs (''/srv'', ''known.json'') = Some ?f \<and> readable ?f" by simp
  have j: "json_load sample_libs (content ?f) = Some (JArr [JStr ''alpha''])"
    by (simp add: sample_libs_def)
  note arr = load_known_lenient[of ?fs "(''/srv'', ''known.json'')" sample_libs,
      THEN conjunct2, rule_format, OF h, THEN conjunct2, THEN conjunct2, THEN conjunct1,
      rule_format, OF j]
  from h j arr show ?thesis by (intro conjI) simp_all
qed

section \<open>The retry loop of the extractor\<close>

lemma retry_loop_step_fail:
  "\<not> succeeded (resp (trial + 1)) \<Longrightarrow>
   retry_loop resp trial slept = retry_loop resp (trial + 1) (slept + 5)"
  by (subst retry_loop.simps) (auto split: api_result.splits)

lemma retry_loop_step_ok:
  "resp (trial + 1) = ApiParsed p \<Longrightarrow> truthy p \<Longrightarrow>
   retry_loop resp trial slept = Some (p, trial + 1, slept)"
  by (subst retry_loop.simps) simp

lemma retry_loop_first_success:
  "resp (trial + d + 1) = ApiParsed p \<Longrightarrow> truthy p \<Longrightarrow>
   (\<forall>k. trial < k \<and> k \<le> trial + d \<longrightarrow> \<not> succeeded (resp k)) \<Longrightarrow>
   retry_loop resp trial slept = Some (p, trial + d + 1, slept + 5 * d)"
proof (induction d arbitrary: trial slept)
  case 0
  then show ?case by (simp add: retry_loop_step_ok)
next
  case (Suc d)
  have nf: "\<not> succeeded (resp (trial + 1))" using Suc.prems(3) by simp
  have "retry_loop resp (trial + 1) (slept + 5) = Some (p, (trial + 1) + d + 1, (slept + 5) + 5 * d)"
    using Suc.prems by (intro Suc.IH) auto
  then show ?case using retry_loop_step_fail[of resp trial slept] nf by simp
qed

lemma retry_loop_Some_ex:
  assumes "retry_loop resp trial slept = Some y"
  shows "\<exists>n > trial. succeeded (resp n)"
proof (rule retry_loop.raw_induct
    [where P = "\<lambda>resp trial slept y. \<exists>n > trial. succeeded (resp n)"])
  show "retry_loop resp trial slept = Some y" by fact
next
  fix f :: "(nat \<Rightarrow> api_result) \<Rightarrow> nat \<Rightarrow> nat \<Rightarrow> (srecord option \<times> nat \<times> nat) option"
    and resp trial slept y
  assume IH: "\<And>resp trial slept y. f resp trial slept = Some y \<Longrightarrow> \<exists>n > trial. succeeded (resp n)"
    and body: "(case resp (trial + 1) of
                  ApiRaises \<Rightarrow> f resp (trial + 1) (slept + 5)
                | ApiParsed p \<Rightarrow>
                    if truthy p then Some (p, trial + 1, slept)
                    else f resp (trial + 1) (slept + 5)) = Some y"
  show "\<exists>n > trial. succeeded (resp n)"
  proof (cases "succeeded (resp (trial + 1))")
    case True
    then show ?thesis by (intro exI[of _ "trial + 1"]) simp
  next
    case False
    have "f resp (trial + 1) (slept + 5) = Some y"
    proof (cases "resp (trial + 1)")
      case ApiRaises
      with body show ?thesis by simp
    next
      case (ApiParsed p)
      with False have "\<not> truthy p" by simp
      with body ApiParsed show ?thesis by simp
    qed
    from IH[OF this] obtain n where "n > trial + 1" "succeeded (resp n)" by blast
    then show ?thesis by (intro exI[of _ n]) simp
  qed
qed

lemma retry_loop_None_iff:
  "retry_loop resp trial slept = None \<longleftrightarrow> (\<forall>n > trial. \<not> succeeded (resp n))"
proof
  assume "retry_loop resp trial slept = None"
  show "\<forall>n > trial. \<not> succeeded (resp n)"
  proof (rule ccontr)
    assume "\<not> (\<forall>n > trial. \<not> succeeded (resp n))"
    then have ex: "\<exists>n. trial < n \<and> succeeded (resp n)" by blast
    define m where "m = (LEAST n. trial < n \<and> succeeded (resp n))"
    have m: "trial < m \<and> succeeded (resp m)"
      unfolding m_def using ex by (rule LeastI_ex)
    have least: "\<And>k. trial < k \<Longrightarrow> k < m \<Longrightarrow> \<not> succeeded (resp k)"
      unfolding m_def using not_less_Least by blast
    obtain p where p: "resp m = ApiParsed p" "truthy p"
      using m by (cases "resp m") auto
    obtain d where d: "m = trial + d + 1"
      using m less_imp_Suc_add[of trial m] by auto
    have "retry_loop resp trial slept = Some (p, trial + d + 1, slept + 5 * d)"
      using p least unfolding d by (intro retry_loop_first_success) auto
    with \<open>retry_loop resp trial slept = None\<close> show False by simp
  qed
next
  assume "\<forall>n > trial. \<not> succeeded (resp n)"
  then show "retry_loop resp trial slept = None"
    using retry_loop_Some_ex[of resp trial slept] by (cases "retry_loop resp trial slept") auto
qed

lemma retry_loop_Some:
  assumes "retry_loop resp trial slept = Some (p, n, s)"
  shows "trial < n" "resp n = ApiParsed p" "truthy p"
    "\<forall>k. trial < k \<and> k < n \<longrightarrow> \<not> succeeded (resp k)" "s = slept + 5 * (n - trial - 1)"
proof -
  from retry_loop_Some_ex[OF assms] have ex: "\<exists>n. trial < n \<and> succeeded (resp n)" by blast
  define m where "m = (LEAST n. trial < n \<and> succeeded (resp n))"
  have m: "trial < m \<and> succeeded (resp m)"
    unfolding m_def using ex by (rule LeastI_ex)
  have least: "\<And>k. trial < k \<Longrightarrow> k < m \<Longrightarrow> \<not> succeeded (resp k)"
    unfolding m_def using not_less_Least by blast
  obtain q where q: "resp m = ApiParsed q" "truthy q"
    using m by (cases "resp m") auto
  obtain d where d: "m = trial + d + 1"
    using m less_imp_Suc_add[of trial m] by auto
  have "retry_loop resp trial slept = Some (q, trial + d + 1, slept + 5 * d)"
    using q least unfolding d by (intro retry_loop_first_success) auto
  with assms have eq: "p = q" "n = m" "s = slept + 5 * d" by (simp_all add: d)
  show "trial < n" using eq m by simp
  show "resp n = ApiParsed p" using eq q by simp
  show "truthy p" using eq q by simp
  show "\<forall>k. trial < k \<and> k < n \<longrightarrow> \<not> succeeded (resp k)" using eq least by simp
  show "s = slept + 5 * (n - trial - 1)" using eq d by simp
qed

text \<open>
  The extractor gives up without a single retry when the download of the document fails
  with a request error, even though the model would have answered.
\<close>

theorem no_retry_counterexample:
  \<open>get_gemini_output (Some ()) (\<lambda>u. Inl RequestException)
      (\<lambda>pdf n. ApiParsed (Some [(''mine'', JStr ''A'')])) ''https://x/beta.pdf'' = Returns None\<close>
  by (simp add: get_gemini_output_def)

text \<open>
  Claim C5, amended. The loop around the model call never gives up: it does not return
  exactly when no attempt succeeds, and when it returns, it returns the parsed value of
  the first successful attempt \<open>n\<close>, a true value, after sleeping 5 seconds after each of
  the \<open>n - 1\<close> failed attempts. With a client and a downloaded document,
  \<open>get_gemini_output\<close> is that loop. It returns \<open>None\<close>, at once and without retry,
  exactly when the global client is missing or the download raises a request error.
\<close>

theorem extraction_retry_policy:
  "(retry_loop resp 0 0 = None \<longleftrightarrow> (\<forall>n > 0. \<not> succeeded (resp n)))
   \<and> (\<forall>p n s. retry_loop resp 0 0 = Some (p, n, s) \<longrightarrow>
         0 < n \<and> resp n = ApiParsed p \<and> truthy p
         \<and> (\<forall>k. 0 < k \<and> k < n \<longrightarrow> \<not> succeeded (resp k)) \<and> s = 5 * (n - 1))
   \<and> (genai_client \<noteq> None \<and> dl pdf_url = Inr pdf_bytes \<longrightarrow>
         get_gemini_output genai_client dl answers pdf_url =
           (case retry_loop (answers pdf_bytes) 0 0 of
              None \<Rightarrow> Diverges
            | Some (p, n, s) \<Rightarrow> Returns p))
   \<and> (get_gemini_output genai_client dl answers pdf_url = Returns None
         \<longleftrightarrow> genai_client = None \<or> dl pdf_url = Inl RequestException)"
proof -
  have c1: "retry_loop resp 0 0 = None \<longleftrightarrow> (\<forall>n > 0. \<not> succeeded (resp n))"
    by (rule retry_loop_None_iff)
  have c2: "\<forall>p n s. retry_loop resp 0 0 = Some (p, n, s) \<longrightarrow>
         0 < n \<and> resp n = ApiParsed p \<and> truthy p
         \<and> (\<forall>k. 0 < k \<and> k < n \<longrightarrow> \<not> succeeded (resp k)) \<and> s = 5 * (n - 1)"
  proof (intro allI impI)
    fix p n s assume a: "retry_loop resp 0 0 = Some (p, n, s)"
    from retry_loop_Some[OF a]
    show "0 < n \<and> resp n = ApiParsed p \<and> truthy p
         \<and> (\<forall>k. 0 < k \<and> k < n \<longrightarrow> \<not> succeeded (resp k)) \<and> s = 5 * (n - 1)"
      by simp
  qed
  have c3: "genai_client \<noteq> None \<and> dl pdf_url = Inr pdf_bytes \<longrightarrow>
         get_gemini_output genai_client dl answers pdf_url =
           (case retry_loop (answers pdf_bytes) 0 0 of
              None \<Rightarrow> Diverges
            | Some (p, n, s) \<Rightarrow> Returns p)"
    by (simp add: get_gemini_output_def)
  have c4: "get_gemini_output genai_client dl answers pdf_url = Returns None
         \<longleftrightarrow> genai_client = None \<or> dl pdf_url = Inl RequestException"
  proof (cases "genai_client = None")
    case True
    then show ?thesis by (simp add: get_gemini_output_def)
  next
    case False
    show ?thesis
    proof (cases "dl pdf_url")
      case (Inl e)
      with False show ?thesis by (simp add: get_gemini_output_def)
    next
      case (Inr b)
      show ?thesis
      proof (cases "retry_loop (answers b) 0 0")
        case None
        with False Inr show ?thesis by (simp add: get_gemini_output_def)
      next
        case (Some y)
        obtain p n s where y: "y = (p, n, s)" by (cases y)
        from retry_loop_Some(3)[OF Some[unfolded y]] have "p \<noteq> None" by (cases p) auto
        with False Inr Some y show ?thesis by (auto simp add: get_gemini_output_def)
      qed
    qed
  qed
  from c1 c2 c3 c4 show ?thesis by (intro conjI)
qed

theorem extraction_retry_policy_witness:
  "(Some () \<noteq> None \<and> (\<lambda>u::string. Inr ''%PDF'' :: py_exn + string) ''https://x/beta.pdf'' = Inr ''%PDF'')
   \<and> retry_loop (\<lambda>n. if n < 3 then ApiRaises else ApiParsed (Some [(''mine'', JStr ''A'')])) 0 0
     = Some (Some [(''mine'', JStr ''A'')], 3, 10)
   \<and> get_gemini_output (Some ()) (\<lambda>u. Inr ''%PDF'')
        (\<lambda>pdf n. if n < 3 then ApiRaises else ApiParsed (Some [(''mine'', JStr ''A'')]))
        ''https://x/beta.pdf'' = Returns (Some [(''mine'', JStr ''A'')])"
proof -
  let ?resp = "\<lambda>n::nat. if n < 3 then ApiRaises else ApiParsed (Some [(''mine'', JStr ''A'')])"
  have r: "retry_loop ?resp 0 0 = Some (Some [(''mine'', JStr ''A'')], 3, 10)"
    apply (subst retry_loop.simps, simp)
    apply (subst retry_loop.simps, simp)
    apply (subst retry_loop.simps, simp)
    done
  have pre: "Some () \<noteq> None \<and> (\<lambda>u::string. Inr ''%PDF'' :: py_exn + string) ''https://x/beta.pdf'' = Inr ''%PDF''"
    by simp
  note c3 = extraction_retry_policy
    [of ?resp "Some ()" "\<lambda>u. Inr ''%PDF''" "''https://x/beta.pdf''" "''%PDF''" "\<lambda>pdf. ?resp",
     THEN conjunct2, THEN conjunct2, THEN conjunct1, rule_format, OF pre]
  have "get_gemini_output (Some ()) (\<lambda>u. Inr ''%PDF'') (\<lambda>pdf. ?resp) ''https://x/beta.pdf''
     = Returns (Some [(''mine'', JStr ''A'')])"
    unfolding c3 r by simp
  with r pre show ?thesis by (intro conjI) simp_all
qed

section \<open>Names of documents\<close>

lemma basename_last_segment:
  "CHR ''/'' \<notin> set seg \<Longrightarrow> os_path_basename (dir @ ''/'' @ seg) = seg"
proof -
  assume a: "CHR ''/'' \<notin> set seg"
  have "takeWhile (\<lambda>c. c \<noteq> CHR ''/'') (rev seg @ CHR ''/'' # rev dir) = rev seg"
    using a by (intro takeWhile_tail[THEN trans, rotated]) (auto simp: takeWhile_eq_all_conv)
  then show ?thesis by (simp add: os_path_basename_def)
qed

lemma name_alert_no_12: "name_of_basename ''Alert%20No%2012.PDF'' = Some ''alert no 12''"
  by code_simp
lemma name_foo_lower: "name_of_basename ''foo.pdf'' = Some ''foo''"
  by code_simp
lemma name_foo_upper: "name_of_basename ''FOO.PDF'' = Some ''foo''"
  by code_simp

lemma lower_length: "length (lower s) = length s"
  by (simp add: lower_def)

lemma lower_append: "lower (a @ b) = lower a @ lower b"
  by (simp add: lower_def)

lemma name_of_basename_iff:
  "name_of_basename b = Some n \<longleftrightarrow>
     (\<exists>stem ext. unquote b = stem @ ext \<and> lower ext = ''.pdf'' \<and> stem \<noteq> [] \<and> n = lower stem)"
proof
  assume a: "name_of_basename b = Some n"
  let ?d = "unquote b"
  from a have e: "endswith (lower ?d) ''.pdf''" and n: "n = lower (take (length ?d - 4) ?d)" and ne: "n \<noteq> []"
    by (auto simp: name_of_basename_def Let_def split: if_splits)
  have "?d = take (length ?d - 4) ?d @ drop (length ?d - 4) ?d" by simp
  moreover have "lower (drop (length ?d - 4) ?d) = ''.pdf''"
    using e by (simp add: endswith_def lower_def drop_map eval_nat_numeral)
  moreover have "take (length ?d - 4) ?d \<noteq> []" using ne n by (auto simp: lower_def)
  ultimately show "\<exists>stem ext. unquote b = stem @ ext \<and> lower ext = ''.pdf'' \<and> stem \<noteq> [] \<and> n = lower stem"
    using n by blast
next
  assume "\<exists>stem ext. unquote b = stem @ ext \<and> lower ext = ''.pdf'' \<and> stem \<noteq> [] \<and> n = lower stem"
  then obtain stem ext where u: "unquote b = stem @ ext" and l: "lower ext = ''.pdf''"
    and s: "stem \<noteq> []" and n: "n = lower stem" by blast
  have len: "length ext = 4" using lower_length[of ext] l by simp
  have bne: "b \<noteq> []" using u s by (cases b) auto
  have "endswith (lower (unquote b)) ''.pdf''"
    by (simp add: u endswith_def lower_append l len lower_length)
  moreover have "take (length (unquote b) - 4) (unquote b) = stem"
    by (simp add: u len)
  ultimately show "name_of_basename b = Some n"
    using bne s n by (simp add: name_of_basename_def Let_def lower_def)
qed

lemma name_of_url_last_segment:
  "urlpath L full_url = dir @ ''/'' @ seg \<Longrightarrow> CHR ''/'' \<notin> set seg \<Longrightarrow>
   name_of_url L full_url = name_of_basename seg"
  using basename_last_segment[of seg dir] by (simp add: name_of_url_def)

text \<open>
  Claim C7. The name recorded for a resolved address is obtained from the final segment
  of its path: the segment is percent-decoded, must end in \<open>.pdf\<close> in any mix of
  cases, loses that suffix and is lower-cased. An address whose path ends in
  \<open>/Alert%20No%2012.PDF\<close> gets the name \<open>alert no 12\<close>; paths ending in \<open>/foo.pdf\<close> and
  in \<open>/FOO.PDF\<close> both get the name \<open>foo\<close>.
\<close>

theorem identifier_normalization:
  "(name_of_url L full_url = Some n \<longleftrightarrow>
      (\<exists>stem ext. unquote (os_path_basename (urlpath L full_url)) = stem @ ext
          \<and> lower ext = ''.pdf'' \<and> stem \<noteq> [] \<and> n = lower stem))
   \<and> (CHR ''/'' \<notin> set seg \<longrightarrow> os_path_basename (dir @ ''/'' @ seg) = seg)
   \<and> (urlpath L full_url = dir @ ''/Alert%20No%2012.PDF'' \<longrightarrow>
         name_of_url L full_url = Some ''alert no 12'')
   \<and> (urlpath L full_url = dir @ ''/foo.pdf'' \<or> urlpath L full_url = dir @ ''/FOO.PDF'' \<longrightarrow>
         name_of_url L full_url = Some ''foo'')"
proof -
  have a: "name_of_url L full_url = Some n \<longleftrightarrow>
      (\<exists>stem ext. unquote (os_path_basename (urlpath L full_url)) = stem @ ext
          \<and> lower ext = ''.pdf'' \<and> stem \<noteq> [] \<and> n = lower stem)"
    unfolding name_of_url_def by (rule name_of_basename_iff)
  have b: "CHR ''/'' \<notin> set seg \<longrightarrow> os_path_basename (dir @ ''/'' @ seg) = seg"
    using basename_last_segment[of seg dir] by blast
  have c: "urlpath L full_url = dir @ ''/Alert%20No%2012.PDF'' \<longrightarrow>
         name_of_url L full_url = Some ''alert no 12''"
  proof
    assume "urlpath L full_url = dir @ ''/Alert%20No%2012.PDF''"
    then have "urlpath L full_url = dir @ ''/'' @ ''Alert%20No%2012.PDF''" by simp
    then have "name_of_url L full_url = name_of_basename ''Alert%20No%2012.PDF''"
      by (rule name_of_url_last_segment) simp
    then show "name_of_url L full_url = Some ''alert no 12''" by (simp only: name_alert_no_12)
  qed
  have d: "urlpath L full_url = dir @ ''/foo.pdf'' \<or> urlpath L full_url = dir @ ''/FOO.PDF'' \<longrightarrow>
         name_of_url L full_url = Some ''foo''"
  proof
    assume "urlpath L full_url = dir @ ''/foo.pdf'' \<or> urlpath L full_url = dir @ ''/FOO.PDF''"
    then consider "urlpath L full_url = dir @ ''/'' @ ''foo.pdf''"
      | "urlpath L full_url = dir @ ''/'' @ ''FOO.PDF''" by auto
    then show "name_of_url L full_url = Some ''foo''"
    proof cases
      case 1
      then have "name_of_url L full_url = name_of_basename ''foo.pdf''"
        by (rule name_of_url_last_segment) simp
      then show ?thesis by (simp only: name_foo_lower)
    next
      case 2
      then have "name_of_url L full_url = name_of_basename ''FOO.PDF''"
        by (rule name_of_url_last_segment) simp
      then show ?thesis by (simp only: name_foo_upper)
    qed
  qed
  from a b c d show ?thesis by (intro conjI)
qed

theorem identifier_normalization_witness:
  "urlpath sample_libs ''https://www.dgms.gov.in/docs/Alert%20No%2012.PDF''
      = ''/docs'' @ ''/Alert%20No%2012.PDF''
   \<and> name_of_url sample_libs ''https://www.dgms.gov.in/docs/Alert%20No%2012.PDF''
      = Some ''alert no 12''"
proof -
  have p: "urlpath sample_libs ''https://www.dgms.gov.in/docs/Alert%20No%2012.PDF''
      = ''/docs'' @ ''/Alert%20No%2012.PDF''"
    by (simp add: sample_libs_def)
  note c = identifier_normalization
    [of sample_libs "''https://www.dgms.gov.in/docs/Alert%20No%2012.PDF''" _ _ "''/docs''",
     THEN conjunct2, THEN conjunct2, THEN conjunct1, rule_format, OF p]
  from p c show ?thesis by (intro conjI)
qed

text \<open>On one page, the two spellings are one entry of the dictionary; the later address wins.\<close>

lemma same_item_example:
  "extract_pdf_names_and_urls sample_libs
     [''https://x/docs/foo.pdf'', ''https://x/index.html'', ''https://x/docs/FOO.PDF''] ''https://x/''
   = [(''foo'', ''https://x/docs/FOO.PDF'')]"
  by code_simp

section \<open>The poll cycle\<close>

lemma compute_new_props:
  assumes "compute_new (extract_pdf_names_and_urls L html url) known = (new_alerts, new_basenames)"
  shows "new_basenames = map fst new_alerts"
    and "distinct new_basenames"
    and "\<forall>b \<in> set new_basenames. JStr b \<notin> set known"
    and "new_alerts = [] \<longleftrightarrow> new_basenames = []"
proof -
  let ?found = "extract_pdf_names_and_urls L html url"
  have d: "distinct (map fst ?found)"
    using extract_distinct[of L html url] by (simp add: dict_keys_def)
  from compute_new_eq[OF d, of known] assms
  have na: "new_alerts = filter (\<lambda>kv. JStr (fst kv) \<notin> set known) ?found"
    and nb: "new_basenames = map fst new_alerts" by auto
  show "new_basenames = map fst new_alerts" by (rule nb)
  show "distinct new_basenames"
    unfolding nb na using d by (rule distinct_map_filter)
  show "\<forall>b \<in> set new_basenames. JStr b \<notin> set known"
    unfolding nb na by auto
  show "new_alerts = [] \<longleftrightarrow> new_basenames = []"
    unfolding nb by simp
qed

lemma process_items_events:
  "process_items sb g env items = (evs, fin) \<Longrightarrow> \<forall>e \<in> set evs. is_item_event e"
proof (induction items arbitrary: evs fin)
  case Nil
  then show ?case by simp
next
  case (Cons a items)
  obtain b u where a: "a = (b, u)" by (cases a)
  obtain evs' fin' where r: "process_items sb g env items = (evs', fin')"
    by (cases "process_items sb g env items")
  from Cons.IH[OF r] have ih: "\<forall>e \<in> set evs'. is_item_event e" .
  show ?case
  proof (cases "get_gemini_output g (download env) (api env) u")
    case (Returns d)
    with Cons.prems a r ih show ?thesis
      by (auto simp: add_incident_def split: if_splits)
  next
    case (Raises e)
    with Cons.prems a r ih show ?thesis by auto
  next
    case Diverges
    with Cons.prems a show ?thesis by auto
  qed
qed

lemma cycle_fetch_failed:
  "fetch_res env url = Inl e \<Longrightarrow>
   cycle L g url p sb env known fs = (FetchFailed, [EvFetch url], known, fs)"
  by (simp add: cycle_def)

lemma cycle_no_new:
  assumes "fetch_res env url = Inr html"
    and "compute_new (extract_pdf_names_and_urls L html url) known = ([], nb)"
  shows "cycle L g url p sb env known fs = (CycleDone, [EvFetch url], known, fs)"
  using assms by (simp add: cycle_def Let_def)

lemma cycle_save_raised:
  assumes "fetch_res env url = Inr html"
    and "compute_new (extract_pdf_names_and_urls L html url) known = (na, nb)"
    and "na \<noteq> []"
    and "save_known_atomic L (save_io env) (known @ map JStr nb) p fs = (Some e, fs', str)"
  shows "cycle L g url p sb env known fs
           = (SaveRaised e, [EvFetch url, EvSave (known @ map JStr nb)], known @ map JStr nb, fs')"
  using assms by (simp add: cycle_def Let_def)

lemma cycle_saved:
  assumes "fetch_res env url = Inr html"
    and "compute_new (extract_pdf_names_and_urls L html url) known = (na, nb)"
    and "na \<noteq> []"
    and "save_known_atomic L (save_io env) (known @ map JStr nb) p fs = (None, fs', str)"
    and "process_items sb g env na = (evs, fin)"
  shows "cycle L g url p sb env known fs
           = (if fin then CycleDone else Blocked,
              EvFetch url # EvSave (known @ map JStr nb) # evs, known @ map JStr nb, fs')"
  using assms by (simp add: cycle_def Let_def)

lemma cycle_known_grows:
  assumes "cycle L g url p sb env known fs = (out, tr, known', fs')"
  shows "\<exists>added. known' = known @ added \<and> distinct added \<and> (\<forall>x \<in> set added. x \<notin> set known)"
proof (cases "fetch_res env url")
  case (Inl e)
  from cycle_fetch_failed[OF Inl, of L g p sb known fs] assms show ?thesis by simp
next
  case (Inr html)
  obtain na nb where new: "compute_new (extract_pdf_names_and_urls L html url) known = (na, nb)"
    by (cases "compute_new (extract_pdf_names_and_urls L html url) known")
  note props = compute_new_props[OF new]
  show ?thesis
  proof (cases "na = []")
    case True
    from cycle_no_new[OF Inr new[unfolded True], of g p sb fs] assms show ?thesis by simp
  next
    case False
    have k: "known' = known @ map JStr nb"
      using assms Inr new False by (auto simp: cycle_def Let_def split: prod.splits option.splits)
    have "distinct (map JStr nb)" using props(2) by (simp add: distinct_map inj_on_def)
    moreover have "\<forall>x \<in> set (map JStr nb). x \<notin> set known" using props(3) by auto
    ultimately show ?thesis using k by blast
  qed
qed

lemma loop_known_grows:
  "loop L g url p interval once sb envs known fs = (out, tr, known', fs') \<Longrightarrow>
   \<exists>added. known' = known @ added \<and> distinct added \<and> (\<forall>x \<in> set added. x \<notin> set known)"
proof (induction envs arbitrary: known fs out tr known' fs')
  case Nil
  then show ?case by simp
next
  case (Cons env envs)
  obtain o1 t1 k1 f1 where c: "cycle L g url p sb env known fs = (o1, t1, k1, f1)"
    by (metis prod_cases4)
  from cycle_known_grows[OF c] obtain a1 where
    a1: "k1 = known @ a1" "distinct a1" "\<forall>x \<in> set a1. x \<notin> set known" by blast
  have stop: "known' = k1 \<Longrightarrow> ?case" using a1 by blast
  show ?case
  proof (cases "(o1 = CycleDone \<or> o1 = FetchFailed) \<and> \<not> once \<and> \<not> interval < 0")
    case False
    then have "known' = k1"
      using Cons.prems c by (cases o1) (auto split: if_splits)
    then show ?thesis by (rule stop)
  next
    case True
    obtain o2 t2 k2 f2 where r: "loop L g url p interval once sb envs k1 f1 = (o2, t2, k2, f2)"
      by (metis prod_cases4)
    have "known' = k2"
      using Cons.prems c True r by (cases o1) auto
    moreover from Cons.IH[OF r] obtain a2 where
      a2: "k2 = k1 @ a2" "distinct a2" "\<forall>x \<in> set a2. x \<notin> set k1" by blast
    ultimately have "known' = known @ (a1 @ a2)" using a1 by simp
    moreover have "distinct (a1 @ a2)" using a1 a2 by auto
    moreover have "\<forall>x \<in> set (a1 @ a2). x \<notin> set known" using a1 a2 by auto
    ultimately show ?thesis by blast
  qed
qed

subsection \<open>The sample world\<close>

lemma sample_extract:
  "extract_pdf_names_and_urls sample_libs sample_page ''https://x/alerts''
     = [(''beta'', ''https://x/docs/beta.pdf''), (''gamma'', ''https://x/docs/gamma.pdf'')]"
  by code_simp

lemma sample_compute_new:
  "compute_new (extract_pdf_names_and_urls sample_libs sample_page ''https://x/alerts'') [JStr ''alpha'']
     = ([(''beta'', ''https://x/docs/beta.pdf''), (''gamma'', ''https://x/docs/gamma.pdf'')],
        [''beta'', ''gamma''])"
  unfolding sample_extract by (simp add: compute_new_def)

lemma sample_save_ok:
  \<open>\<exists>str. save_known_atomic sample_libs (save_io (sample_env answers True))
      [JStr ''alpha'', JStr ''beta'', JStr ''gamma''] sample_path sample_fs
    = (None,
       sample_fs(sample_path \<mapsto> \<lparr>readable = True, content = ''["alpha", "beta", "gamma"]''\<rparr>),
       str)\<close>
proof -
  have fresh: "sample_fs (''/srv'', ''.known.json.a1'') = None"
    by (simp add: sample_fs_def sample_path_def)
  have upd: \<open>(sample_fs((''/srv'', ''.known.json.a1'') \<mapsto> x, (''/srv'', ''.known.json.a1'') := None,
                 sample_path \<mapsto> y)) = sample_fs(sample_path \<mapsto> y)\<close> for x y
    using fresh by (auto simp: fun_eq_iff sample_path_def)
  show ?thesis
    using fresh upd
    by (simp add: save_known_atomic_def mkstemp_def shutil_move_def finally_cleanup_def Let_def
        sample_libs_def sample_env_def sample_path_def)
qed

lemma sample_save_move_fails:
  \<open>\<exists>str. save_known_atomic sample_libs (save_io (sample_env answers False))
      [JStr ''alpha'', JStr ''beta'', JStr ''gamma''] sample_path sample_fs
    = (Some OSError, sample_fs, str)\<close>
proof -
  have fresh: "sample_fs (''/srv'', ''.known.json.a1'') = None"
    by (simp add: sample_fs_def sample_path_def)
  have upd: \<open>(sample_fs((''/srv'', ''.known.json.a1'') \<mapsto> x))((''/srv'', ''.known.json.a1'') := None)
               = sample_fs\<close> for x
    using fresh by (auto simp: fun_eq_iff)
  show ?thesis
    using fresh upd
    by (simp add: save_known_atomic_def mkstemp_def shutil_move_def finally_cleanup_def Let_def
        sample_libs_def sample_env_def sample_path_def)
qed

lemma sample_blocked:
  "get_gemini_output (Some ()) (download (sample_env (\<lambda>pdf n. ApiRaises) mv))
      (api (sample_env (\<lambda>pdf n. ApiRaises) mv)) u = Diverges"
proof -
  have "retry_loop (\<lambda>n. ApiRaises) 0 0 = None"
    by (simp add: retry_loop_None_iff)
  then show ?thesis by (simp add: get_gemini_output_def sample_env_def)
qed

lemma sample_answered:
  "get_gemini_output (Some ()) (download (sample_env (\<lambda>pdf n. ApiParsed (Some [(''mine'', JStr ''A'')])) mv))
      (api (sample_env (\<lambda>pdf n. ApiParsed (Some [(''mine'', JStr ''A'')])) mv)) u
   = Returns (Some [(''mine'', JStr ''A'')])"
proof -
  have "retry_loop (\<lambda>n. ApiParsed (Some [(''mine'', JStr ''A'')])) 0 0
          = Some (Some [(''mine'', JStr ''A'')], 0 + 1, 0)"
    by (rule retry_loop_step_ok) simp_all
  then show ?thesis by (simp add: get_gemini_output_def sample_env_def)
qed

lemma sample_load: "load_known sample_libs sample_fs sample_path = Inr [JStr ''alpha'']"
  by (simp add: load_known_def sample_fs_def sample_libs_def)

lemma sample_items_answered:
  "process_items (Some ()) (Some ()) (sample_env (\<lambda>pdf n. ApiParsed (Some [(''mine'', JStr ''A'')])) mv)
     [(''beta'', ''https://x/docs/beta.pdf''), (''gamma'', ''https://x/docs/gamma.pdf'')]
   = ([EvExtract ''https://x/docs/beta.pdf'', EvIngest [(''mine'', JStr ''A'')],
       EvInsert [(''mine'', JStr ''A'')],
       EvExtract ''https://x/docs/gamma.pdf'', EvIngest [(''mine'', JStr ''A'')],
       EvInsert [(''mine'', JStr ''A'')]], True)"
  by (simp add: sample_answered add_incident_def)

subsection \<open>Commit before process\<close>

text \<open>
  Claim C1. In a cycle that finds new alerts, the known list in memory becomes the old
  list followed by all new names, and the save of that list is the second event of the
  cycle, right after the fetch: every extractor call, every call of \<open>add_incident\<close> and
  every insert comes later in the trace, and nothing else does. Whenever such an event
  exists, and whenever the cycle completes or blocks in an extractor call that never
  returns, the file at the target holds the whole new list; a restart then loads exactly
  that list, provided \<open>json.load\<close> reads back what \<open>json.dump\<close> wrote. When the save
  raises, no item is processed.
\<close>

theorem commit_before_process:
  assumes fetch: "fetch_res env target_url = Inr html"
    and new: "compute_new (extract_pdf_names_and_urls L html target_url) known
                = (new_alerts, new_basenames)"
    and nonempty: "new_alerts \<noteq> []"
    and run: "cycle L genai_client target_url json_path supabase_client env known fs
                = (out, tr, known', fs')"
  shows "known' = known @ map JStr new_basenames
       \<and> set new_basenames = set (dict_keys new_alerts)
       \<and> take 2 tr = [EvFetch target_url, EvSave known']
       \<and> (\<forall>e \<in> set (drop 2 tr). is_item_event e)
       \<and> (\<forall>i < length tr. is_item_event (tr ! i) \<longrightarrow>
             1 < i \<and> fs' json_path = Some (new_file L known'))
       \<and> (out = Blocked \<or> out = CycleDone \<longrightarrow> fs' json_path = Some (new_file L known'))
       \<and> (out \<noteq> Blocked \<and> out \<noteq> CycleDone \<longrightarrow> (\<forall>e \<in> set tr. \<not> is_item_event e))
       \<and> ((out = Blocked \<or> out = CycleDone) \<and> json_load L (json_dump L known') = Some (JArr known')
            \<longrightarrow> load_known L fs' json_path = Inr known')"
proof -
  let ?k = "known @ map JStr new_basenames"
  have keys: "set new_basenames = set (dict_keys new_alerts)"
    using compute_new_props(1)[OF new] by (simp add: dict_keys_def)
  obtain r fs1 str where save: "save_known_atomic L (save_io env) ?k json_path fs = (r, fs1, str)"
    by (metis prod_cases3)
  show ?thesis
  proof (cases r)
    case (Some e)
    from cycle_save_raised[OF fetch new nonempty save[unfolded Some], where g = genai_client and sb = supabase_client] run
    have "out = SaveRaised e" "tr = [EvFetch target_url, EvSave ?k]" "known' = ?k"
      by simp_all
    with keys show ?thesis by (auto simp: less_Suc_eq numeral_2_eq_2)
  next
    case None
    obtain evs fin where items: "process_items supabase_client genai_client env new_alerts = (evs, fin)"
      by (cases "process_items supabase_client genai_client env new_alerts")
    from cycle_saved[OF fetch new nonempty save[unfolded None] items] run
    have tr: "tr = EvFetch target_url # EvSave ?k # evs" and k: "known' = ?k" and f: "fs' = fs1"
      and out: "out = (if fin then CycleDone else Blocked)"
      by simp_all
    have persisted: "fs' json_path = Some (new_file L known')"
      using save_known_atomic_None[OF save[unfolded None]] k f by simp
    have idx: "\<forall>i < length tr. is_item_event (tr ! i) \<longrightarrow> 1 < i"
    proof (intro allI impI)
      fix i assume "i < length tr" "is_item_event (tr ! i)"
      then show "1 < i" unfolding tr by (cases i; cases "i - 1") auto
    qed
    have restart: "json_load L (json_dump L known') = Some (JArr known')
            \<longrightarrow> load_known L fs' json_path = Inr known'"
      using persisted by (simp add: load_known_def new_file_def)
    have after: "\<forall>e \<in> set (drop 2 tr). is_item_event e"
      using process_items_events[OF items] unfolding tr by simp
    have "out = Blocked \<or> out = CycleDone" using out by simp
    with keys tr k persisted idx restart after show ?thesis by auto
  qed
qed

text \<open>
  Two new alerts, and a model that never answers for the first: the cycle blocks in the
  first extractor call, and the file already holds both names.
\<close>

theorem commit_before_process_witness:
  \<open>fetch_res (sample_env (\<lambda>pdf n. ApiRaises) True) ''https://x/alerts'' = Inr sample_page
   \<and> compute_new (extract_pdf_names_and_urls sample_libs sample_page ''https://x/alerts'')
         [JStr ''alpha'']
       = ([(''beta'', ''https://x/docs/beta.pdf''), (''gamma'', ''https://x/docs/gamma.pdf'')],
          [''beta'', ''gamma''])
   \<and> cycle sample_libs (Some ()) ''https://x/alerts'' sample_path (Some ())
         (sample_env (\<lambda>pdf n. ApiRaises) True) [JStr ''alpha''] sample_fs
       = (Blocked,
          [EvFetch ''https://x/alerts'', EvSave [JStr ''alpha'', JStr ''beta'', JStr ''gamma''],
           EvExtract ''https://x/docs/beta.pdf''],
          [JStr ''alpha'', JStr ''beta'', JStr ''gamma''],
          sample_fs(sample_path \<mapsto>
            \<lparr>readable = True, content = ''["alpha", "beta", "gamma"]''\<rparr>))
   \<and> load_known sample_libs
         (sample_fs(sample_path \<mapsto>
            \<lparr>readable = True, content = ''["alpha", "beta", "gamma"]''\<rparr>)) sample_path
       = Inr [JStr ''alpha'', JStr ''beta'', JStr ''gamma'']\<close>
proof -
  let ?env = "sample_env (\<lambda>pdf n. ApiRaises) True"
  let ?na = "[(''beta'', ''https://x/docs/beta.pdf''), (''gamma'', ''https://x/docs/gamma.pdf'')]"
  let ?k = "[JStr ''alpha'', JStr ''beta'', JStr ''gamma'']"
  let ?fs = \<open>sample_fs(sample_path \<mapsto> \<lparr>readable = True, content = ''["alpha", "beta", "gamma"]''\<rparr>)\<close>
  have fetch: "fetch_res ?env ''https://x/alerts'' = Inr sample_page"
    by (simp add: sample_env_def)
  have new: "compute_new (extract_pdf_names_and_urls sample_libs sample_page ''https://x/alerts'')
               [JStr ''alpha''] = (?na, [''beta'', ''gamma''])"
    by (rule sample_compute_new)
  have ne: "?na \<noteq> []" by simp
  have items: "process_items (Some ()) (Some ()) ?env ?na = ([EvExtract ''https://x/docs/beta.pdf''], False)"
    by (simp add: sample_blocked)
  have run: "cycle sample_libs (Some ()) ''https://x/alerts'' sample_path (Some ()) ?env
               [JStr ''alpha''] sample_fs
             = (Blocked,
                [EvFetch ''https://x/alerts'', EvSave ?k, EvExtract ''https://x/docs/beta.pdf''],
                ?k, ?fs)"
    using cycle_saved[OF fetch new ne _ items, where p = sample_path and fs = sample_fs]
      sample_save_ok[of "\<lambda>pdf n. ApiRaises"]
    by auto
  have rt: "json_load sample_libs (json_dump sample_libs ?k) = Some (JArr ?k)"
    by (simp add: sample_libs_def)
  have pre: "(Blocked = Blocked \<or> Blocked = CycleDone)
             \<and> json_load sample_libs (json_dump sample_libs ?k) = Some (JArr ?k)"
    using rt by simp
  have "load_known sample_libs ?fs sample_path = Inr ?k"
    by (rule commit_before_process[OF fetch new ne run, THEN conjunct2, THEN conjunct2,
          THEN conjunct2, THEN conjunct2, THEN conjunct2, THEN conjunct2, THEN conjunct2,
          rule_format, OF pre])
  with fetch new run show ?thesis by (intro conjI)
qed

subsection \<open>The empty page\<close>

text \<open>
  Claim C9. When the dictionary built from the fetched page is empty, there are no new
  alerts, the cycle ends normally with the fetch as its only event, so without a save,
  and the known list and the file system are unchanged.
\<close>

theorem empty_page_no_save:
  assumes fetch: "fetch_res env target_url = Inr html"
    and empty: "extract_pdf_names_and_urls L html target_url = []"
  shows "compute_new (extract_pdf_names_and_urls L html target_url) known = ([], [])
       \<and> cycle L genai_client target_url json_path supabase_client env known fs
            = (CycleDone, [EvFetch target_url], known, fs)"
proof -
  have c: "compute_new (extract_pdf_names_and_urls L html target_url) known = ([], [])"
    by (simp add: empty compute_new_def)
  from c cycle_no_new[OF fetch c] show ?thesis by simp
qed

theorem empty_page_no_save_witness:
  "fetch_res ((sample_env (\<lambda>pdf n. ApiRaises) True)\<lparr>fetch_res := (\<lambda>u. Inr [''https://x/index.html''])\<rparr>)
        ''https://x/alerts'' = Inr [''https://x/index.html'']
   \<and> extract_pdf_names_and_urls sample_libs [''https://x/index.html''] ''https://x/alerts'' = []
   \<and> cycle sample_libs (Some ()) ''https://x/alerts'' sample_path (Some ())
        ((sample_env (\<lambda>pdf n. ApiRaises) True)\<lparr>fetch_res := (\<lambda>u. Inr [''https://x/index.html''])\<rparr>)
        [JStr ''alpha''] sample_fs
      = (CycleDone, [EvFetch ''https://x/alerts''], [JStr ''alpha''], sample_fs)"
proof -
  let ?env = "(sample_env (\<lambda>pdf n. ApiRaises) True)\<lparr>fetch_res := (\<lambda>u. Inr [''https://x/index.html''])\<rparr>"
  have fetch: "fetch_res ?env ''https://x/alerts'' = Inr [''https://x/index.html'']"
    by simp
  have empty: "extract_pdf_names_and_urls sample_libs [''https://x/index.html''] ''https://x/alerts'' = []"
    by code_simp
  from empty_page_no_save[OF fetch empty, where known = "[JStr ''alpha'']" and genai_client = "Some ()"
      and json_path = sample_path and supabase_client = "Some ()" and fs = sample_fs]
  show ?thesis using empty fetch by simp
qed

subsection \<open>The known list only grows\<close>

text \<open>
  Claim C6. Over any number of cycles of the loop, whatever the world answers, the known
  list at the end is the list at the start followed by added elements; the added elements
  are pairwise distinct and none of them was in the list at the start. So no element is
  ever removed, none is added twice, and a list without duplicates stays without
  duplicates.
\<close>

theorem known_set_only_grows:
  assumes "loop L genai_client target_url json_path interval once supabase_client envs known fs
             = (out, tr, known', fs')"
  shows "(\<exists>added. known' = known @ added \<and> distinct added \<and> (\<forall>x \<in> set added. x \<notin> set known))
       \<and> set known \<subseteq> set known'
       \<and> (distinct known \<longrightarrow> distinct known')"
proof -
  from loop_known_grows[OF assms] obtain added where
    a: "known' = known @ added" "distinct added" "\<forall>x \<in> set added. x \<notin> set known" by blast
  then have "set known \<subseteq> set known'" and "distinct known \<longrightarrow> distinct known'" by auto
  with a show ?thesis by blast
qed

theorem known_set_only_grows_witness:
  \<open>loop sample_libs (Some ()) ''https://x/alerts'' sample_path 5 False (Some ())
      [sample_env (\<lambda>pdf n. ApiParsed (Some [(''mine'', JStr ''A'')])) True,
       sample_env (\<lambda>pdf n. ApiParsed (Some [(''mine'', JStr ''A'')])) True]
      [JStr ''alpha''] sample_fs
    = (StillRunning,
       [EvFetch ''https://x/alerts'', EvSave [JStr ''alpha'', JStr ''beta'', JStr ''gamma''],
        EvExtract ''https://x/docs/beta.pdf'', EvIngest [(''mine'', JStr ''A'')],
        EvInsert [(''mine'', JStr ''A'')],
        EvExtract ''https://x/docs/gamma.pdf'', EvIngest [(''mine'', JStr ''A'')],
        EvInsert [(''mine'', JStr ''A'')],
        EvSleep 5, EvFetch ''https://x/alerts'', EvSleep 5],
       [JStr ''alpha'', JStr ''beta'', JStr ''gamma''],
       sample_fs(sample_path \<mapsto> \<lparr>readable = True, content = ''["alpha", "beta", "gamma"]''\<rparr>))
   \<and> set [JStr ''alpha''] \<subseteq> set [JStr ''alpha'', JStr ''beta'', JStr ''gamma'']
   \<and> distinct [JStr ''alpha'']
   \<and> distinct [JStr ''alpha'', JStr ''beta'', JStr ''gamma'']\<close>
proof -
  let ?ans = "\<lambda>(pdf::string) (n::nat). ApiParsed (Some [(''mine'', JStr ''A'')])"
  let ?env = "sample_env ?ans True"
  let ?k = "[JStr ''alpha'', JStr ''beta'', JStr ''gamma'']"
  let ?fs = \<open>sample_fs(sample_path \<mapsto> \<lparr>readable = True, content = ''["alpha", "beta", "gamma"]''\<rparr>)\<close>
  have fetch: "fetch_res ?env ''https://x/alerts'' = Inr sample_page"
    by (simp add: sample_env_def)
  have ne: "[(''beta'', ''https://x/docs/beta.pdf''), (''gamma'', ''https://x/docs/gamma.pdf'')] \<noteq> []"
    by simp
  have c1: "cycle sample_libs (Some ()) ''https://x/alerts'' sample_path (Some ()) ?env
              [JStr ''alpha''] sample_fs
            = (CycleDone,
               [EvFetch ''https://x/alerts'', EvSave ?k,
                EvExtract ''https://x/docs/beta.pdf'', EvIngest [(''mine'', JStr ''A'')],
                EvInsert [(''mine'', JStr ''A'')],
                EvExtract ''https://x/docs/gamma.pdf'', EvIngest [(''mine'', JStr ''A'')],
                EvInsert [(''mine'', JStr ''A'')]], ?k, ?fs)"
    using cycle_saved[OF fetch sample_compute_new ne _ sample_items_answered,
        where p = sample_path and fs = sample_fs] sample_save_ok[of ?ans]
    by auto
  have new2: "compute_new (extract_pdf_names_and_urls sample_libs sample_page ''https://x/alerts'') ?k
                = ([], [])"
    unfolding sample_extract by (simp add: compute_new_def)
  have c2: "cycle sample_libs (Some ()) ''https://x/alerts'' sample_path (Some ()) ?env ?k ?fs
            = (CycleDone, [EvFetch ''https://x/alerts''], ?k, ?fs)"
    by (rule cycle_no_new[OF fetch new2])
  have run: "loop sample_libs (Some ()) ''https://x/alerts'' sample_path 5 False (Some ())
      [?env, ?env] [JStr ''alpha''] sample_fs
    = (StillRunning,
       [EvFetch ''https://x/alerts'', EvSave ?k,
        EvExtract ''https://x/docs/beta.pdf'', EvIngest [(''mine'', JStr ''A'')],
        EvInsert [(''mine'', JStr ''A'')],
        EvExtract ''https://x/docs/gamma.pdf'', EvIngest [(''mine'', JStr ''A'')],
        EvInsert [(''mine'', JStr ''A'')],
        EvSleep 5, EvFetch ''https://x/alerts'', EvSleep 5], ?k, ?fs)"
    by (simp add: c1 c2)
  have d: "distinct [JStr ''alpha'']" by simp
  from known_set_only_grows[OF run] d
  have "set [JStr ''alpha''] \<subseteq> set ?k" "distinct ?k" by blast+
  with run d show ?thesis by (intro conjI)
qed

subsection \<open>A save that fails\<close>

text \<open>
  A save that raises ends the whole loop, not only the cycle: with the rename refused and
  the copy of the fallback refused too, two cycles' worth of answers ready and \<open>once\<close>
  false, \<open>main_loop\<close> raises in the first cycle and never fetches again.
\<close>

theorem save_failure_counterexample:
  "main_loop sample_libs (Some ()) ''https://x/alerts'' sample_path 5 None False (Some ()) ()
     [sample_env (\<lambda>pdf n. ApiParsed (Some [(''mine'', JStr ''A'')])) False,
      sample_env (\<lambda>pdf n. ApiParsed (Some [(''mine'', JStr ''A'')])) True]
     sample_fs
   = (Raised OSError,
      [EvFetch ''https://x/alerts'', EvSave [JStr ''alpha'', JStr ''beta'', JStr ''gamma'']],
      [JStr ''alpha'', JStr ''beta'', JStr ''gamma''], sample_fs)"
proof -
  let ?ans = "\<lambda>(pdf::string) (n::nat). ApiParsed (Some [(''mine'', JStr ''A'')])"
  obtain str where save: "save_known_atomic sample_libs (save_io (sample_env ?ans False))
      [JStr ''alpha'', JStr ''beta'', JStr ''gamma''] sample_path sample_fs
    = (Some OSError, sample_fs, str)"
    using sample_save_move_fails[of ?ans] by blast
  have fetch: "fetch_res (sample_env ?ans False) ''https://x/alerts'' = Inr sample_page"
    by (simp add: sample_env_def)
  have "cycle sample_libs (Some ()) ''https://x/alerts'' sample_path (Some ()) (sample_env ?ans False)
          [JStr ''alpha''] sample_fs
        = (SaveRaised OSError,
           [EvFetch ''https://x/alerts'', EvSave [JStr ''alpha'', JStr ''beta'', JStr ''gamma'']],
           [JStr ''alpha'', JStr ''beta'', JStr ''gamma''], sample_fs)"
    using cycle_save_raised[OF fetch sample_compute_new _ , where p = sample_path and fs = sample_fs
        and e = OSError and fs' = sample_fs and str = str and g = "Some ()" and sb = "Some ()"] save
    by simp
  then show ?thesis
    by (simp add: main_loop_def sample_load)
qed

text \<open>
  Claim C8, amended. When the save of a cycle raises, the exception is caught nowhere in
  \<open>main_loop\<close>: the run ends with that exception, whatever \<open>once\<close> says and whatever
  answers were ready for later cycles, after the fetch and the save call as its only
  events. So no item of the cycle is processed and no later cycle runs.
\<close>

theorem save_failure_ends_loop:
  assumes fetch: "fetch_res env target_url = Inr html"
    and new: "compute_new (extract_pdf_names_and_urls L html target_url) known
                = (new_alerts, new_basenames)"
    and nonempty: "new_alerts \<noteq> []"
    and save: "save_known_atomic L (save_io env) (known @ map JStr new_basenames) json_path fs
                = (Some e, fs', str)"
  shows "loop L genai_client target_url json_path interval once supabase_client (env # envs) known fs
           = (Raised e, [EvFetch target_url, EvSave (known @ map JStr new_basenames)],
              known @ map JStr new_basenames, fs')
       \<and> (load_known L fs json_path = Inr known \<longrightarrow>
            main_loop L genai_client target_url json_path interval None once supabase_client
              genai_client_obj (env # envs) fs
            = (Raised e, [EvFetch target_url, EvSave (known @ map JStr new_basenames)],
               known @ map JStr new_basenames, fs'))"
proof -
  from cycle_save_raised[OF fetch new nonempty save, where g = genai_client and sb = supabase_client]
  have l: "loop L genai_client target_url json_path interval once supabase_client (env # envs) known fs
           = (Raised e, [EvFetch target_url, EvSave (known @ map JStr new_basenames)],
              known @ map JStr new_basenames, fs')"
    by simp
  then have "load_known L fs json_path = Inr known \<longrightarrow>
            main_loop L genai_client target_url json_path interval None once supabase_client
              genai_client_obj (env # envs) fs
            = (Raised e, [EvFetch target_url, EvSave (known @ map JStr new_basenames)],
               known @ map JStr new_basenames, fs')"
    by (simp add: main_loop_def)
  with l show ?thesis by (intro conjI)
qed

theorem save_failure_ends_loop_witness:
  "fetch_res (sample_env (\<lambda>pdf n. ApiRaises) False) ''https://x/alerts'' = Inr sample_page
   \<and> compute_new (extract_pdf_names_and_urls sample_libs sample_page ''https://x/alerts'')
         [JStr ''alpha'']
       = ([(''beta'', ''https://x/docs/beta.pdf''), (''gamma'', ''https://x/docs/gamma.pdf'')],
          [''beta'', ''gamma''])
   \<and> fst (save_known_atomic sample_libs (save_io (sample_env (\<lambda>pdf n. ApiRaises) False))
         ([JStr ''alpha''] @ map JStr [''beta'', ''gamma'']) sample_path sample_fs) = Some OSError
   \<and> loop sample_libs (Some ()) ''https://x/alerts'' sample_path 5 False (Some ())
         [sample_env (\<lambda>pdf n. ApiRaises) False, sample_env (\<lambda>pdf n. ApiRaises) True]
         [JStr ''alpha''] sample_fs
       = (Raised OSError,
          [EvFetch ''https://x/alerts'', EvSave [JStr ''alpha'', JStr ''beta'', JStr ''gamma'']],
          [JStr ''alpha'', JStr ''beta'', JStr ''gamma''], sample_fs)"
proof -
  let ?ans = "\<lambda>(pdf::string) (n::nat). ApiRaises"
  obtain str where save: "save_known_atomic sample_libs (save_io (sample_env ?ans False))
      ([JStr ''alpha''] @ map JStr [''beta'', ''gamma'']) sample_path sample_fs
    = (Some OSError, sample_fs, str)"
    using sample_save_move_fails[of ?ans] by auto
  have fetch: "fetch_res (sample_env ?ans False) ''https://x/alerts'' = Inr sample_page"
    by (simp add: sample_env_def)
  have ne: "[(''beta'', ''https://x/docs/beta.pdf''), (''gamma'', ''https://x/docs/gamma.pdf'')] \<noteq> []"
    by simp
  note ends = save_failure_ends_loop[OF fetch sample_compute_new ne save,
      where genai_client = "Some ()" and supabase_client = "Some ()" and interval = 5
        and once = False and envs = "[sample_env ?ans True]"
        and genai_client_obj = "()", THEN conjunct1]
  from fetch sample_compute_new save ends show ?thesis by simp
qed

subsection \<open>The injected client\<close>

text \<open>
  Claim C10. \<open>main_loop\<close> never reads its parameter \<open>genai_client_obj\<close>: for any two
  values of it, of any types, and all other arguments equal, the outcome, the events, the
  known list and the file system are the same. The extractor reads the global client.
\<close>

theorem injected_client_ignored:
  "main_loop L genai_client url json_path interval dev_url once supabase_client
      (genai_client_obj :: 'a) envs fs
   = main_loop L genai_client url json_path interval dev_url once supabase_client
      (other_client_obj :: 'b) envs fs"
  by (simp add: main_loop_def)

text \<open>Without the global client the extractor returns nothing, whatever was injected.\<close>

lemma global_client_decides:
  "get_gemini_output None dl answers pdf_url = Returns None"
  by (simp add: get_gemini_output_def)

end
